theory Spec2Isabelle
  imports Main
begin

section \<open>The container \<open>Optional<T>\<close> of \<open>optional.h\<close>\<close>

text \<open>
  \<open>Optional<T>\<close> keeps one \<open>T\<close> in a byte buffer \<open>data_\<close> that is part of the object itself,
  constructs it there with placement \<open>new\<close> and destroys it with an explicit destructor call.
  The model is an explicit store:
  \<^item> every \<open>Optional\<close> object is named by its address \<open>this\<close>; the store maps the address of a
    live box to its members \<open>is_initialized\<close> and \<open>value_ptr\<close>;
  \<^item> the \<open>T\<close> objects that placement \<open>new\<close> has constructed and no destructor call has destroyed
    yet are a second map, from the address of the buffer to the state of the \<open>T\<close> in it;
  \<^item> two counters record every completed placement \<open>new\<close> and every destructor call;
  \<^item> the special member functions of \<open>T\<close> are parameters, and each of them may throw;
  \<^item> behaviour that C++ leaves undefined (a null or dangling \<open>value_ptr\<close> being dereferenced,
    a destructor call on storage without a live object, a member function called on a box
    outside its lifetime) is the result \<open>None\<close>.
\<close>

subsection \<open>Data\<close>

type_synonym addr = nat

text \<open>\<open>class BadOptionalAccess\<close>, and the exceptions of \<open>T\<close> that pass through the container.\<close>

datatype 'e exn = BadOptionalAccess | T_exception 'e

text \<open>
  The special member functions of the element type \<open>T\<close>, as functions on the state \<open>'v\<close> of a
  \<open>T\<close> object; \<open>'e\<close> is what they throw.
  \<^item> \<open>T_copy src\<close> is \<open>T(const T&)\<close>: the new object, or the exception.
  \<^item> \<open>T_move src\<close> is \<open>T(T&&)\<close>: the new object or the exception, and the state the source
    is left in.
  \<^item> \<open>T_copy_assign lhs rhs\<close> is \<open>T::operator=(const T&)\<close>: the exception if one is thrown,
    and the state of the left-hand side afterwards.
  \<^item> \<open>T_move_assign lhs rhs\<close> is \<open>T::operator=(T&&)\<close> on two different objects: the
    exception if one is thrown, and the states of the left-hand side and of the source
    afterwards.
  \<^item> \<open>T_move_assign_self obj\<close> is \<open>T::operator=(T&&)\<close> when the argument is the object
    itself: the exception if one is thrown, and the state of that one object afterwards.
  The destructor \<open>~T()\<close> does not throw and ends the object.
\<close>

record ('v, 'e) T_ops =
  T_copy :: "'v \<Rightarrow> 'e + 'v"
  T_move :: "'v \<Rightarrow> ('e + 'v) \<times> 'v"
  T_copy_assign :: "'v \<Rightarrow> 'v \<Rightarrow> 'e option \<times> 'v"
  T_move_assign :: "'v \<Rightarrow> 'v \<Rightarrow> 'e option \<times> 'v \<times> 'v"
  T_move_assign_self :: "'v \<Rightarrow> 'e option \<times> 'v"

text \<open>
  The members of \<open>Optional<T>\<close> other than the buffer: \<open>bool is_initialized_ = false\<close> and
  \<open>T* value_ptr_ = nullptr\<close> (\<open>None\<close> is \<open>nullptr\<close>). A name cannot end in an underscore here,
  so the members are \<open>is_initialized\<close> and \<open>value_ptr\<close>.
\<close>

record Optional =
  is_initialized :: bool
  value_ptr :: "addr option"

text \<open>
  \<open>data_addr this\<close> is \<open>&data_[0]\<close> of the box at \<open>this\<close>. The buffer
  \<open>alignas(T) char data_[sizeof(T)]\<close> is the first member of the class, so it starts where the
  object starts; the buffers of different boxes are different storage.
\<close>

definition data_addr :: "addr \<Rightarrow> addr" where
  "data_addr this = this"

record 'v world =
  boxes :: "addr \<rightharpoonup> Optional"
  objs :: "addr \<rightharpoonup> 'v"
  constructed :: nat
  destroyed :: nat

definition empty_world :: "'v world" where
  "empty_world = \<lparr>boxes = Map.empty, objs = Map.empty, constructed = 0, destroyed = 0\<rparr>"

text \<open>A call either returns or leaves by an exception.\<close>

datatype ('a, 'e) outcome = Returned 'a | Thrown "'e exn"

text \<open>
  A constructor either completes, and the box exists with the members it initialised, or leaves
  by an exception, and then no box exists. \<open>Ctor_thrown e flag\<close> keeps, beside the exception,
  the value that the member initialiser of \<open>is_initialized\<close> had already written when the
  exception left the constructor.
\<close>

datatype 'e ctor_result = Constructed Optional | Ctor_thrown "'e exn" bool

subsection \<open>Placement new, destructor call, dereference\<close>

text \<open>\<open>new (p) T(...)\<close> once the constructor of \<open>T\<close> has returned the state \<open>v\<close>.\<close>

definition construct_at :: "addr \<Rightarrow> 'v \<Rightarrow> 'v world \<Rightarrow> 'v world" where
  "construct_at p v w = w\<lparr>objs := (objs w)(p \<mapsto> v), constructed := Suc (constructed w)\<rparr>"

text \<open>\<open>p->~T()\<close>: undefined on a null pointer and on storage that holds no live \<open>T\<close>.\<close>

definition destroy_at :: "addr option \<Rightarrow> 'v world \<Rightarrow> 'v world option" where
  "destroy_at ptr w =
     (case ptr of
        None \<Rightarrow> None
      | Some p \<Rightarrow>
          (case objs w p of
             None \<Rightarrow> None
           | Some v \<Rightarrow> Some (w\<lparr>objs := (objs w)(p := None), destroyed := Suc (destroyed w)\<rparr>)))"

text \<open>\<open>*ptr\<close>: the address and the state of the object, undefined when there is none.\<close>

definition deref :: "addr option \<Rightarrow> 'v world \<Rightarrow> (addr \<times> 'v) option" where
  "deref ptr w =
     (case ptr of
        None \<Rightarrow> None
      | Some p \<Rightarrow> (case objs w p of None \<Rightarrow> None | Some v \<Rightarrow> Some (p, v)))"

text \<open>A store through a reference to a live \<open>T\<close>.\<close>

definition write_at :: "addr \<Rightarrow> 'v \<Rightarrow> 'v world \<Rightarrow> 'v world" where
  "write_at p v w = w\<lparr>objs := (objs w)(p \<mapsto> v)\<rparr>"

definition set_box :: "addr \<Rightarrow> Optional \<Rightarrow> 'v world \<Rightarrow> 'v world" where
  "set_box this b w = w\<lparr>boxes := (boxes w)(this \<mapsto> b)\<rparr>"

text \<open>How a call that ran an assignment operator of \<open>T\<close> ends.\<close>

definition finish :: "'e option \<Rightarrow> addr \<Rightarrow> 'v world \<Rightarrow> ((addr, 'e) outcome \<times> 'v world) option" where
  "finish err this w =
     (case err of
        None \<Rightarrow> Some (Returned this, w)
      | Some e \<Rightarrow> Some (Thrown (T_exception e), w))"

subsection \<open>Queries\<close>

text \<open>\<open>bool HasValue() const\<close>.\<close>

definition HasValue :: "addr \<Rightarrow> 'v world \<Rightarrow> bool option" where
  "HasValue this w =
     (case boxes w this of None \<Rightarrow> None | Some b \<Rightarrow> Some (is_initialized b))"

text \<open>
  \<open>T& Value()\<close> and \<open>const T& Value() const\<close>. The reference returned is the address of the
  object; binding it through a null \<open>value_ptr\<close> is undefined.
\<close>

definition Value :: "addr \<Rightarrow> 'v world \<Rightarrow> (addr, 'e) outcome option" where
  "Value this w =
     (case boxes w this of
        None \<Rightarrow> None
      | Some b \<Rightarrow>
          if \<not> is_initialized b then Some (Thrown BadOptionalAccess)
          else (case value_ptr b of None \<Rightarrow> None | Some p \<Rightarrow> Some (Returned p)))"

definition Value_const :: "addr \<Rightarrow> 'v world \<Rightarrow> (addr, 'e) outcome option" where
  "Value_const this w =
     (case boxes w this of
        None \<Rightarrow> None
      | Some b \<Rightarrow>
          if \<not> is_initialized b then Some (Thrown BadOptionalAccess)
          else (case value_ptr b of None \<Rightarrow> None | Some p \<Rightarrow> Some (Returned p)))"

subsection \<open>Constructors\<close>

text \<open>
  The members are initialised in the order of their declaration: \<open>data_\<close>, \<open>is_initialized\<close>,
  \<open>value_ptr\<close>. So the flag is written before the placement \<open>new\<close> in the initialiser of
  \<open>value_ptr\<close> runs the constructor of \<open>T\<close>.
\<close>

text \<open>\<open>Optional() = default\<close>: the default member initialisers.\<close>

definition Optional_default :: "addr \<Rightarrow> 'v world \<Rightarrow> ('e ctor_result \<times> 'v world) option" where
  "Optional_default this w =
     Some (Constructed \<lparr>is_initialized = False, value_ptr = None\<rparr>, w)"

text \<open>\<open>Optional(const T& value)\<close>.\<close>

definition Optional_copy_value ::
  "('v, 'e) T_ops \<Rightarrow> addr \<Rightarrow> 'v \<Rightarrow> 'v world \<Rightarrow> ('e ctor_result \<times> 'v world) option" where
  "Optional_copy_value T this val w =
     (let flag = True in
      case T_copy T val of
        Inl e \<Rightarrow> Some (Ctor_thrown (T_exception e) flag, w)
      | Inr v \<Rightarrow>
          Some (Constructed \<lparr>is_initialized = flag, value_ptr = Some (data_addr this)\<rparr>,
                construct_at (data_addr this) v w))"

text \<open>
  \<open>Optional(T&& value)\<close>. The argument is a \<open>T\<close> outside every box; the state it is left in
  belongs to the caller.
\<close>

definition Optional_move_value ::
  "('v, 'e) T_ops \<Rightarrow> addr \<Rightarrow> 'v \<Rightarrow> 'v world \<Rightarrow> ('e ctor_result \<times> 'v world) option" where
  "Optional_move_value T this val w =
     (let flag = True in
      case fst (T_move T val) of
        Inl e \<Rightarrow> Some (Ctor_thrown (T_exception e) flag, w)
      | Inr v \<Rightarrow>
          Some (Constructed \<lparr>is_initialized = flag, value_ptr = Some (data_addr this)\<rparr>,
                construct_at (data_addr this) v w))"

text \<open>\<open>Optional(const Optional& other)\<close>.\<close>

definition Optional_copy ::
  "('v, 'e) T_ops \<Rightarrow> addr \<Rightarrow> addr \<Rightarrow> 'v world \<Rightarrow> ('e ctor_result \<times> 'v world) option" where
  "Optional_copy T this other w =
     (case boxes w other of
        None \<Rightarrow> None
      | Some ob \<Rightarrow>
          (let flag = (if is_initialized ob then True else False) in
           if is_initialized ob then
             (case Value_const other w of
                None \<Rightarrow> None
              | Some (Thrown e) \<Rightarrow> Some (Ctor_thrown e flag, w)
              | Some (Returned p) \<Rightarrow>
                  (case objs w p of
                     None \<Rightarrow> None
                   | Some src \<Rightarrow>
                       (case T_copy T src of
                          Inl e \<Rightarrow> Some (Ctor_thrown (T_exception e) flag, w)
                        | Inr v \<Rightarrow>
                            Some (Constructed
                                    \<lparr>is_initialized = flag, value_ptr = Some (data_addr this)\<rparr>,
                                  construct_at (data_addr this) v w))))
           else Some (Constructed \<lparr>is_initialized = flag, value_ptr = None\<rparr>, w)))"

text \<open>\<open>Optional(Optional&& other)\<close>: the constructor of \<open>T\<close> moves from the object in \<open>other\<close>.\<close>

definition Optional_move ::
  "('v, 'e) T_ops \<Rightarrow> addr \<Rightarrow> addr \<Rightarrow> 'v world \<Rightarrow> ('e ctor_result \<times> 'v world) option" where
  "Optional_move T this other w =
     (case boxes w other of
        None \<Rightarrow> None
      | Some ob \<Rightarrow>
          (let flag = (if is_initialized ob then True else False) in
           if is_initialized ob then
             (case Value other w of
                None \<Rightarrow> None
              | Some (Thrown e) \<Rightarrow> Some (Ctor_thrown e flag, w)
              | Some (Returned p) \<Rightarrow>
                  (case objs w p of
                     None \<Rightarrow> None
                   | Some src \<Rightarrow>
                       (let w1 = write_at p (snd (T_move T src)) w in
                        case fst (T_move T src) of
                          Inl e \<Rightarrow> Some (Ctor_thrown (T_exception e) flag, w1)
                        | Inr v \<Rightarrow>
                            Some (Constructed
                                    \<lparr>is_initialized = flag, value_ptr = Some (data_addr this)\<rparr>,
                                  construct_at (data_addr this) v w1))))
           else Some (Constructed \<lparr>is_initialized = flag, value_ptr = None\<rparr>, w)))"

subsection \<open>Assignment\<close>

text \<open>\<open>Optional& operator=(const T& value)\<close>.\<close>

definition assign_copy_value ::
  "('v, 'e) T_ops \<Rightarrow> addr \<Rightarrow> 'v \<Rightarrow> 'v world \<Rightarrow> ((addr, 'e) outcome \<times> 'v world) option" where
  "assign_copy_value T this val w =
     (case boxes w this of
        None \<Rightarrow> None
      | Some b \<Rightarrow>
          if is_initialized b then
            (case deref (value_ptr b) w of
               None \<Rightarrow> None
             | Some (p, cur) \<Rightarrow>
                 finish (fst (T_copy_assign T cur val)) this
                   (write_at p (snd (T_copy_assign T cur val)) w))
          else
            (case T_copy T val of
               Inl e \<Rightarrow> Some (Thrown (T_exception e), w)
             | Inr v \<Rightarrow>
                 Some (Returned this,
                       set_box this (b\<lparr>value_ptr := Some (data_addr this), is_initialized := True\<rparr>)
                         (construct_at (data_addr this) v w))))"

text \<open>\<open>Optional& operator=(T&& rhs)\<close>; the argument is a \<open>T\<close> outside every box.\<close>

definition assign_move_value ::
  "('v, 'e) T_ops \<Rightarrow> addr \<Rightarrow> 'v \<Rightarrow> 'v world \<Rightarrow> ((addr, 'e) outcome \<times> 'v world) option" where
  "assign_move_value T this val w =
     (case boxes w this of
        None \<Rightarrow> None
      | Some b \<Rightarrow>
          if is_initialized b then
            (case deref (value_ptr b) w of
               None \<Rightarrow> None
             | Some (p, cur) \<Rightarrow>
                 finish (fst (T_move_assign T cur val)) this
                   (write_at p (fst (snd (T_move_assign T cur val))) w))
          else
            (case fst (T_move T val) of
               Inl e \<Rightarrow> Some (Thrown (T_exception e), w)
             | Inr v \<Rightarrow>
                 Some (Returned this,
                       set_box this (b\<lparr>value_ptr := Some (data_addr this), is_initialized := True\<rparr>)
                         (construct_at (data_addr this) v w))))"

text \<open>\<open>Optional& operator=(const Optional& rhs)\<close>.\<close>

definition assign_copy ::
  "('v, 'e) T_ops \<Rightarrow> addr \<Rightarrow> addr \<Rightarrow> 'v world \<Rightarrow> ((addr, 'e) outcome \<times> 'v world) option" where
  "assign_copy T this rhs w =
     (case boxes w this of
        None \<Rightarrow> None
      | Some b \<Rightarrow>
          (case boxes w rhs of
             None \<Rightarrow> None
           | Some r \<Rightarrow>
               if is_initialized b \<and> is_initialized r then
                 (case deref (value_ptr b) w of
                    None \<Rightarrow> None
                  | Some (p, cur) \<Rightarrow>
                      (case deref (value_ptr r) w of
                         None \<Rightarrow> None
                       | Some (q, src) \<Rightarrow>
                           finish (fst (T_copy_assign T cur src)) this
                             (write_at p (snd (T_copy_assign T cur src)) w)))
               else if \<not> is_initialized b \<and> is_initialized r then
                 (case deref (value_ptr r) w of
                    None \<Rightarrow> None
                  | Some (q, src) \<Rightarrow>
                      (case T_copy T src of
                         Inl e \<Rightarrow> Some (Thrown (T_exception e), w)
                       | Inr v \<Rightarrow>
                           Some (Returned this,
                                 set_box this
                                   (b\<lparr>value_ptr := Some (data_addr this), is_initialized := True\<rparr>)
                                   (construct_at (data_addr this) v w))))
               else if is_initialized b \<and> \<not> is_initialized r then
                 (case destroy_at (value_ptr b) w of
                    None \<Rightarrow> None
                  | Some w1 \<Rightarrow>
                      Some (Returned this, set_box this (b\<lparr>is_initialized := False\<rparr>) w1))
               else Some (Returned this, w)))"

text \<open>
  \<open>Optional& operator=(Optional&& rhs)\<close>. The operation of \<open>T\<close> leaves the source object in
  its moved-from state. In \<open>*value_ptr_ = std::move(*(rhs.value_ptr_))\<close> the two pointers are
  the same when \<open>rhs\<close> is the box itself: then the operator of \<open>T\<close> gets one object as both
  its sides, and what becomes of that object is \<open>T_move_assign_self\<close>.
\<close>

definition assign_move ::
  "('v, 'e) T_ops \<Rightarrow> addr \<Rightarrow> addr \<Rightarrow> 'v world \<Rightarrow> ((addr, 'e) outcome \<times> 'v world) option" where
  "assign_move T this rhs w =
     (case boxes w this of
        None \<Rightarrow> None
      | Some b \<Rightarrow>
          (case boxes w rhs of
             None \<Rightarrow> None
           | Some r \<Rightarrow>
               if is_initialized b \<and> is_initialized r then
                 (case deref (value_ptr b) w of
                    None \<Rightarrow> None
                  | Some (p, cur) \<Rightarrow>
                      (case deref (value_ptr r) w of
                         None \<Rightarrow> None
                       | Some (q, src) \<Rightarrow>
                           if p = q then
                             finish (fst (T_move_assign_self T cur)) this
                               (write_at p (snd (T_move_assign_self T cur)) w)
                           else
                             finish (fst (T_move_assign T cur src)) this
                               (write_at p (fst (snd (T_move_assign T cur src)))
                                  (write_at q (snd (snd (T_move_assign T cur src))) w))))
               else if \<not> is_initialized b \<and> is_initialized r then
                 (case deref (value_ptr r) w of
                    None \<Rightarrow> None
                  | Some (q, src) \<Rightarrow>
                      (let w1 = write_at q (snd (T_move T src)) w in
                       case fst (T_move T src) of
                         Inl e \<Rightarrow> Some (Thrown (T_exception e), w1)
                       | Inr v \<Rightarrow>
                           Some (Returned this,
                                 set_box this
                                   (b\<lparr>value_ptr := Some (data_addr this), is_initialized := True\<rparr>)
                                   (construct_at (data_addr this) v w1))))
               else if is_initialized b \<and> \<not> is_initialized r then
                 (case destroy_at (value_ptr b) w of
                    None \<Rightarrow> None
                  | Some w1 \<Rightarrow>
                      Some (Returned this, set_box this (b\<lparr>is_initialized := False\<rparr>) w1))
               else Some (Returned this, w)))"

subsection \<open>Reset and the destructor\<close>

text \<open>\<open>void Reset()\<close>.\<close>

definition Reset :: "addr \<Rightarrow> 'v world \<Rightarrow> 'v world option" where
  "Reset this w =
     (case boxes w this of
        None \<Rightarrow> None
      | Some b \<Rightarrow>
          if is_initialized b then
            (case destroy_at (value_ptr b) w of
               None \<Rightarrow> None
             | Some w1 \<Rightarrow> Some (set_box this (b\<lparr>is_initialized := False\<rparr>) w1))
          else Some w)"

text \<open>\<open>~Optional() { Reset(); }\<close>, after which the box is no longer an object.\<close>

definition destructor :: "addr \<Rightarrow> 'v world \<Rightarrow> 'v world option" where
  "destructor this w =
     (case Reset this w of
        None \<Rightarrow> None
      | Some w1 \<Rightarrow> Some (w1\<lparr>boxes := (boxes w1)(this := None)\<rparr>))"

subsection \<open>Programs over boxes\<close>

text \<open>
  What a caller can do with boxes: construct one where none lives, assign to one, reset one,
  and end its lifetime (scope exit runs the destructor).
\<close>

datatype 'v op =
    New_default addr
  | New_copy_value addr 'v
  | New_move_value addr 'v
  | New_copy addr addr
  | New_move addr addr
  | Assign_copy_value addr 'v
  | Assign_move_value addr 'v
  | Assign_copy addr addr
  | Assign_move addr addr
  | Call_Reset addr
  | Delete addr

text \<open>
  A constructor runs on storage where no box lives. When it returns the box has begun to
  exist; when it throws there is no box, and the members it had written are gone.
\<close>

definition construct_box ::
  "addr \<Rightarrow> ('e ctor_result \<times> 'v world) option \<Rightarrow> 'v world \<Rightarrow>
     ((addr, 'e) outcome \<times> 'v world) option" where
  "construct_box this r w =
     (if boxes w this \<noteq> None then None
      else case r of
        None \<Rightarrow> None
      | Some (Constructed m, w1) \<Rightarrow> Some (Returned this, set_box this m w1)
      | Some (Ctor_thrown e flag, w1) \<Rightarrow> Some (Thrown e, w1))"

definition returning :: "addr \<Rightarrow> 'v world option \<Rightarrow> ((addr, 'e) outcome \<times> 'v world) option" where
  "returning this r = (case r of None \<Rightarrow> None | Some w1 \<Rightarrow> Some (Returned this, w1))"

fun exec :: "('v, 'e) T_ops \<Rightarrow> 'v op \<Rightarrow> 'v world \<Rightarrow> ((addr, 'e) outcome \<times> 'v world) option" where
  "exec T (New_default this) w = construct_box this (Optional_default this w) w"
| "exec T (New_copy_value this val) w = construct_box this (Optional_copy_value T this val w) w"
| "exec T (New_move_value this val) w = construct_box this (Optional_move_value T this val w) w"
| "exec T (New_copy this other) w = construct_box this (Optional_copy T this other w) w"
| "exec T (New_move this other) w = construct_box this (Optional_move T this other w) w"
| "exec T (Assign_copy_value this val) w = assign_copy_value T this val w"
| "exec T (Assign_move_value this val) w = assign_move_value T this val w"
| "exec T (Assign_copy this rhs) w = assign_copy T this rhs w"
| "exec T (Assign_move this rhs) w = assign_move T this rhs w"
| "exec T (Call_Reset this) w = returning this (Reset this w)"
| "exec T (Delete this) w = returning this (destructor this w)"

text \<open>
  A sequence of operations. An exception that leaves an operation is caught by the caller,
  and the program goes on in the store the exception left.
\<close>

fun run :: "('v, 'e) T_ops \<Rightarrow> 'v op list \<Rightarrow> 'v world \<Rightarrow> 'v world option" where
  "run T [] w = Some w"
| "run T (x # xs) w = (case exec T x w of None \<Rightarrow> None | Some (out, w1) \<Rightarrow> run T xs w1)"

text \<open>The operation uses boxes within their lifetime only.\<close>

fun op_ok :: "'v world \<Rightarrow> 'v op \<Rightarrow> bool" where
  "op_ok w (New_default this) = (boxes w this = None)"
| "op_ok w (New_copy_value this val) = (boxes w this = None)"
| "op_ok w (New_move_value this val) = (boxes w this = None)"
| "op_ok w (New_copy this other) = (boxes w this = None \<and> boxes w other \<noteq> None)"
| "op_ok w (New_move this other) = (boxes w this = None \<and> boxes w other \<noteq> None)"
| "op_ok w (Assign_copy_value this val) = (boxes w this \<noteq> None)"
| "op_ok w (Assign_move_value this val) = (boxes w this \<noteq> None)"
| "op_ok w (Assign_copy this rhs) = (boxes w this \<noteq> None \<and> boxes w rhs \<noteq> None)"
| "op_ok w (Assign_move this rhs) = (boxes w this \<noteq> None \<and> boxes w rhs \<noteq> None)"
| "op_ok w (Call_Reset this) = (boxes w this \<noteq> None)"
| "op_ok w (Delete this) = (boxes w this \<noteq> None)"

text \<open>\<open>Reset()\<close> called \<open>n\<close> times in a row.\<close>

fun Reset_times :: "nat \<Rightarrow> addr \<Rightarrow> 'v world \<Rightarrow> 'v world option" where
  "Reset_times 0 this w = Some w"
| "Reset_times (Suc n) this w =
     (case Reset this w of None \<Rightarrow> None | Some w1 \<Rightarrow> Reset_times n this w1)"

subsection \<open>The invariant of the store\<close>

text \<open>
  The live \<open>T\<close> objects are finitely many, there are as many of them as constructions not yet
  matched by a destruction, the buffer of a box holds a live \<open>T\<close> exactly when the box is live
  and its flag is set, and the pointer of such a box points to its own buffer.
\<close>

definition wf_world :: "'v world \<Rightarrow> bool" where
  "wf_world w \<longleftrightarrow>
     finite (dom (objs w)) \<and>
     constructed w = destroyed w + card (dom (objs w)) \<and>
     (\<forall>a. (objs w (data_addr a) \<noteq> None) = (\<exists>b. boxes w a = Some b \<and> is_initialized b)) \<and>
     (\<forall>a b. boxes w a = Some b \<longrightarrow> is_initialized b \<longrightarrow> value_ptr b = Some (data_addr a))"

subsection \<open>Two element types\<close>

text \<open>
  A number that copies faithfully, never throws, and is \<open>0\<close> once moved from; and one whose
  copy constructor refuses to copy \<open>0\<close>.
\<close>

definition plain_T :: "(nat, nat) T_ops" where
  "plain_T =
     \<lparr>T_copy = (\<lambda>v. Inr v),
      T_move = (\<lambda>v. (Inr v, 0)),
      T_copy_assign = (\<lambda>lhs rhs. (None, rhs)),
      T_move_assign = (\<lambda>lhs rhs. (None, rhs, 0)),
      T_move_assign_self = (\<lambda>obj. (None, 0))\<rparr>"

definition throwing_T :: "(nat, nat) T_ops" where
  "throwing_T =
     \<lparr>T_copy = (\<lambda>v. if v = 0 then Inl 1 else Inr v),
      T_move = (\<lambda>v. (Inr v, 0)),
      T_copy_assign = (\<lambda>lhs rhs. (None, rhs)),
      T_move_assign = (\<lambda>lhs rhs. (None, rhs, 0)),
      T_move_assign_self = (\<lambda>obj. (None, 0))\<rparr>"

subsection \<open>The footprint of an operation\<close>

text \<open>The box an operation is called on, and the box it moves from, if any.\<close>

fun target :: "'v op \<Rightarrow> addr" where
  "target (New_default this) = this"
| "target (New_copy_value this val) = this"
| "target (New_move_value this val) = this"
| "target (New_copy this other) = this"
| "target (New_move this other) = this"
| "target (Assign_copy_value this val) = this"
| "target (Assign_move_value this val) = this"
| "target (Assign_copy this rhs) = this"
| "target (Assign_move this rhs) = this"
| "target (Call_Reset this) = this"
| "target (Delete this) = this"

fun moved_from :: "'v op \<Rightarrow> addr option" where
  "moved_from (New_move this other) = Some other"
| "moved_from (Assign_move this rhs) = Some rhs"
| "moved_from x = None"

subsection \<open>Concrete stores and a concrete program\<close>

text \<open>Stores for concrete runs: a box at address 1 that holds 5, and an empty box at address 1.\<close>

definition w_present :: "nat world" where
  "w_present =
     \<lparr>boxes = [1 \<mapsto> \<lparr>is_initialized = True, value_ptr = Some 1\<rparr>],
      objs = [1 \<mapsto> 5], constructed = 1, destroyed = 0\<rparr>"

definition w_empty :: "nat world" where
  "w_empty =
     \<lparr>boxes = [1 \<mapsto> \<lparr>is_initialized = False, value_ptr = None\<rparr>],
      objs = Map.empty, constructed = 0, destroyed = 0\<rparr>"



text \<open>
  A box at address 1 that holds 0, the value \<open>throwing_T\<close> refuses to copy, and an empty box
  at address 2.
\<close>

definition w_zero :: "nat world" where
  "w_zero =
     \<lparr>boxes = [1 \<mapsto> \<lparr>is_initialized = True, value_ptr = Some 1\<rparr>,
               2 \<mapsto> \<lparr>is_initialized = False, value_ptr = None\<rparr>],
      objs = [1 \<mapsto> 0], constructed = 1, destroyed = 0\<rparr>"

text \<open>The store \<open>w_present\<close> after box 2 has been copy-constructed from box 1.\<close>

definition w_copied :: "nat world" where
  "w_copied =
     set_box 2 \<lparr>is_initialized = True, value_ptr = Some 2\<rparr> (construct_at 2 5 w_present)"

text \<open>
  A program: box 1 is constructed from 5, box 2 is move-constructed from box 1 and assigned 7,
  box 1 is assigned from box 2 and reset twice, and both boxes go out of scope.
\<close>

definition demo_program :: "nat op list" where
  "demo_program =
     [New_copy_value 1 5, New_move 2 1, Assign_copy_value 2 7, Assign_copy 1 2,
      Call_Reset 1, Call_Reset 1, Delete 2, Delete 1]"

section \<open>The invariant is kept, and nothing undefined happens\<close>

subsection \<open>The store primitives\<close>

lemma wf_empty: "wf_world empty_world"
  by (simp add: wf_world_def empty_world_def)

lemma wf_objs_box:
  "wf_world w \<Longrightarrow> boxes w a = Some b \<Longrightarrow> is_initialized b \<Longrightarrow>
     value_ptr b = Some a \<and> (\<exists>v. objs w a = Some v)"
  unfolding wf_world_def data_addr_def by (metis option.exhaust)

lemma wf_objs_none:
  "wf_world w \<Longrightarrow> boxes w a = Some b \<Longrightarrow> \<not> is_initialized b \<Longrightarrow> objs w a = None"
  unfolding wf_world_def data_addr_def by (metis option.inject)

lemma wf_objs_dead:
  "wf_world w \<Longrightarrow> boxes w a = None \<Longrightarrow> objs w a = None"
  unfolding wf_world_def data_addr_def by (metis option.distinct(1))

lemma wf_live_objs:
  assumes "wf_world w"
  shows "dom (objs w) = {a. \<exists>b. boxes w a = Some b \<and> is_initialized b}"
  using assms unfolding wf_world_def data_addr_def by (auto simp: domIff)

lemma wf_construct:
  assumes "wf_world w" and "objs w a = None" and "is_initialized m" and "value_ptr m = Some a"
  shows "wf_world (set_box a m (construct_at a v w))"
  using assms unfolding wf_world_def data_addr_def set_box_def construct_at_def
  by (auto simp: card_insert_if domIff)

lemma destroy_at_live:
  assumes "wf_world w" and "boxes w a = Some b" and "is_initialized b"
  shows "destroy_at (value_ptr b) w =
           Some (w\<lparr>objs := (objs w)(a := None), destroyed := Suc (destroyed w)\<rparr>)"
  using wf_objs_box [OF assms] by (auto simp: destroy_at_def)

lemma wf_destroyed:
  assumes "wf_world w" and "boxes w a = Some b" and "is_initialized b" and "\<not> is_initialized m"
  shows "wf_world (set_box a m (w\<lparr>objs := (objs w)(a := None), destroyed := Suc (destroyed w)\<rparr>))"
proof -
  have live: "a \<in> dom (objs w)" using wf_objs_box [OF assms(1-3)] by auto
  have fin: "finite (dom (objs w))" using assms(1) by (simp add: wf_world_def)
  have c: "card (dom (objs w)) = Suc (card (dom (objs w) - {a}))"
    using card.remove [OF fin live] by simp
  have bal: "constructed w = destroyed w + card (dom (objs w))"
    using assms(1) by (simp add: wf_world_def)
  have own: "\<forall>x. (objs w x \<noteq> None) = (\<exists>b. boxes w x = Some b \<and> is_initialized b)"
    using assms(1) by (simp add: wf_world_def data_addr_def)
  have ptr: "\<forall>x b. boxes w x = Some b \<longrightarrow> is_initialized b \<longrightarrow> value_ptr b = Some x"
    using assms(1) by (simp add: wf_world_def data_addr_def)
  show ?thesis
    unfolding wf_world_def data_addr_def set_box_def
    using fin c bal own ptr assms(4) by simp
qed

lemma wf_ended:
  assumes "wf_world w" and "boxes w a = Some b" and "\<not> is_initialized b"
  shows "wf_world (w\<lparr>boxes := (boxes w)(a := None)\<rparr>)"
  using assms unfolding wf_world_def data_addr_def by auto

lemma wf_new_empty:
  assumes "wf_world w" and "boxes w a = None" and "\<not> is_initialized m"
  shows "wf_world (set_box a m w)"
  using assms unfolding wf_world_def data_addr_def set_box_def by auto

lemma wf_write:
  assumes "wf_world w" and "objs w p \<noteq> None"
  shows "wf_world (write_at p v w)"
  using assms unfolding wf_world_def data_addr_def write_at_def
  by (auto simp: insert_absorb domIff)

lemma deref_live:
  assumes "wf_world w" and "boxes w a = Some b" and "is_initialized b"
  shows "\<exists>v. objs w a = Some v \<and> deref (value_ptr b) w = Some (a, v)"
  using wf_objs_box [OF assms] by (auto simp: deref_def)

lemma Value_live:
  assumes "wf_world w" and "boxes w a = Some b" and "is_initialized b"
  shows "Value a w = Some (Returned a)" and "Value_const a w = Some (Returned a)"
  using wf_objs_box [OF assms] assms(2,3) by (simp_all add: Value_def Value_const_def)

lemma sel_construct_at:
  "boxes (construct_at p v w) = boxes w"
  "objs (construct_at p v w) = (objs w)(p \<mapsto> v)"
  "constructed (construct_at p v w) = Suc (constructed w)"
  "destroyed (construct_at p v w) = destroyed w"
  by (simp_all add: construct_at_def)

lemma sel_write_at:
  "boxes (write_at p v w) = boxes w"
  "objs (write_at p v w) = (objs w)(p \<mapsto> v)"
  "constructed (write_at p v w) = constructed w"
  "destroyed (write_at p v w) = destroyed w"
  by (simp_all add: write_at_def)

lemma sel_set_box:
  "boxes (set_box a m w) = (boxes w)(a \<mapsto> m)"
  "objs (set_box a m w) = objs w"
  "constructed (set_box a m w) = constructed w"
  "destroyed (set_box a m w) = destroyed w"
  by (simp_all add: set_box_def)

lemma finish_cases:
  "finish err this w =
     Some (if err = None then Returned this else Thrown (T_exception (the err)), w)"
  by (cases err) (simp_all add: finish_def)

subsection \<open>Every operation keeps the invariant\<close>

lemma wf_finish:
  "finish err this w1 = Some (out, w') \<Longrightarrow> wf_world w1 \<Longrightarrow> wf_world w'"
  by (auto simp: finish_def split: option.splits)

lemma wf_Optional_default:
  "wf_world w \<Longrightarrow> boxes w this = None \<Longrightarrow>
   construct_box this (Optional_default this w) w = Some (out, w') \<Longrightarrow> wf_world w'"
  by (auto simp: construct_box_def Optional_default_def intro: wf_new_empty)

lemma wf_Optional_copy_value:
  assumes "wf_world w" and "construct_box this (Optional_copy_value T this val w) w = Some (out, w')"
  shows "wf_world w'"
proof -
  have dead: "boxes w this = None" using assms(2) by (auto simp: construct_box_def split: if_splits)
  then have free: "objs w this = None" using assms(1) by (rule wf_objs_dead [rotated])
  show ?thesis
    using assms dead wf_construct [OF assms(1) free]
    by (auto simp: construct_box_def Optional_copy_value_def data_addr_def split: sum.splits)
qed

lemma wf_Optional_move_value:
  assumes "wf_world w" and "construct_box this (Optional_move_value T this val w) w = Some (out, w')"
  shows "wf_world w'"
proof -
  have dead: "boxes w this = None" using assms(2) by (auto simp: construct_box_def split: if_splits)
  then have free: "objs w this = None" using assms(1) by (rule wf_objs_dead [rotated])
  show ?thesis
    using assms dead wf_construct [OF assms(1) free]
    by (auto simp: construct_box_def Optional_move_value_def data_addr_def split: sum.splits)
qed

lemma wf_Optional_copy:
  assumes "wf_world w" and "construct_box this (Optional_copy T this other w) w = Some (out, w')"
  shows "wf_world w'"
proof -
  have dead: "boxes w this = None" using assms(2) by (auto simp: construct_box_def split: if_splits)
  then have free: "objs w this = None" using assms(1) by (rule wf_objs_dead [rotated])
  obtain ob where ob: "boxes w other = Some ob"
    using assms(2) dead by (auto simp: construct_box_def Optional_copy_def split: option.splits)
  show ?thesis
  proof (cases "is_initialized ob")
    case True
    from wf_objs_box [OF assms(1) ob True]
    show ?thesis
      using assms dead ob True wf_construct [OF assms(1) free]
      by (auto simp: construct_box_def Optional_copy_def data_addr_def
            Value_live(2) [OF assms(1) ob True] split: sum.splits)
  next
    case False
    then show ?thesis
      using assms dead ob wf_new_empty [OF assms(1) dead]
      by (auto simp: construct_box_def Optional_copy_def)
  qed
qed

lemma wf_Optional_move:
  assumes "wf_world w" and "construct_box this (Optional_move T this other w) w = Some (out, w')"
  shows "wf_world w'"
proof -
  have dead: "boxes w this = None" using assms(2) by (auto simp: construct_box_def split: if_splits)
  then have free: "objs w this = None" using assms(1) by (rule wf_objs_dead [rotated])
  obtain ob where ob: "boxes w other = Some ob"
    using assms(2) dead by (auto simp: construct_box_def Optional_move_def split: option.splits)
  show ?thesis
  proof (cases "is_initialized ob")
    case True
    from wf_objs_box [OF assms(1) ob True] obtain src where src: "objs w other = Some src"
      by blast
    let ?w1 = "write_at other (snd (T_move T src)) w"
    have w1: "wf_world ?w1" using assms(1) src by (simp add: wf_write)
    have ne: "this \<noteq> other" using dead ob by auto
    have free1: "objs ?w1 this = None" using free ne by (simp add: sel_write_at)
    show ?thesis
      using assms(2) dead ob True src w1 wf_construct [OF w1 free1]
      by (auto simp: construct_box_def Optional_move_def data_addr_def Let_def
            Value_live(1) [OF assms(1) ob True] split: sum.splits)
  next
    case False
    then show ?thesis
      using assms dead ob wf_new_empty [OF assms(1) dead]
      by (auto simp: construct_box_def Optional_move_def)
  qed
qed

lemma wf_emplace:
  assumes "wf_world w" and "boxes w this = Some b" and "\<not> is_initialized b"
  shows "wf_world (set_box this (b\<lparr>value_ptr := Some (data_addr this), is_initialized := True\<rparr>)
            (construct_at (data_addr this) v w))"
  using wf_construct [OF assms(1) wf_objs_none [OF assms]] by (simp add: data_addr_def)

lemma wf_assign_copy_value:
  assumes "wf_world w" and "assign_copy_value T this val w = Some (out, w')"
  shows "wf_world w'"
proof -
  obtain b where b: "boxes w this = Some b"
    using assms(2) by (auto simp: assign_copy_value_def split: option.splits)
  show ?thesis
  proof (cases "is_initialized b")
    case True
    from deref_live [OF assms(1) b True] obtain cur where
      cur: "objs w this = Some cur" "deref (value_ptr b) w = Some (this, cur)" by blast
    have "wf_world (write_at this x w)" for x using assms(1) cur(1) by (simp add: wf_write)
    then show ?thesis
      using assms(2) b True cur(2) by (auto simp: assign_copy_value_def dest: wf_finish)
  next
    case False
    then show ?thesis
      using assms b wf_emplace [OF assms(1) b False]
      by (auto simp: assign_copy_value_def split: sum.splits)
  qed
qed

lemma wf_assign_move_value:
  assumes "wf_world w" and "assign_move_value T this val w = Some (out, w')"
  shows "wf_world w'"
proof -
  obtain b where b: "boxes w this = Some b"
    using assms(2) by (auto simp: assign_move_value_def split: option.splits)
  show ?thesis
  proof (cases "is_initialized b")
    case True
    from deref_live [OF assms(1) b True] obtain cur where
      cur: "objs w this = Some cur" "deref (value_ptr b) w = Some (this, cur)" by blast
    have "wf_world (write_at this x w)" for x using assms(1) cur(1) by (simp add: wf_write)
    then show ?thesis
      using assms(2) b True cur(2) by (auto simp: assign_move_value_def dest: wf_finish)
  next
    case False
    then show ?thesis
      using assms b wf_emplace [OF assms(1) b False]
      by (auto simp: assign_move_value_def split: sum.splits)
  qed
qed

lemma wf_unset:
  assumes "wf_world w" and "boxes w this = Some b" and "is_initialized b"
  shows "\<exists>w1. destroy_at (value_ptr b) w = Some w1 \<and>
           wf_world (set_box this (b\<lparr>is_initialized := False\<rparr>) w1)"
  using destroy_at_live [OF assms] wf_destroyed [OF assms, of "b\<lparr>is_initialized := False\<rparr>"]
  by simp

lemma wf_assign_copy:
  assumes "wf_world w" and "assign_copy T this rhs w = Some (out, w')"
  shows "wf_world w'"
proof -
  obtain b r where b: "boxes w this = Some b" and r: "boxes w rhs = Some r"
    using assms(2) by (auto simp: assign_copy_def split: option.splits)
  consider (pp) "is_initialized b" "is_initialized r" | (ep) "\<not> is_initialized b" "is_initialized r"
    | (pe) "is_initialized b" "\<not> is_initialized r" | (ee) "\<not> is_initialized b" "\<not> is_initialized r"
    by blast
  then show ?thesis
  proof cases
    case pp
    from deref_live [OF assms(1) b pp(1)] obtain cur where
      cur: "objs w this = Some cur" "deref (value_ptr b) w = Some (this, cur)" by blast
    from deref_live [OF assms(1) r pp(2)] obtain src where
      src: "deref (value_ptr r) w = Some (rhs, src)" by blast
    have "wf_world (write_at this x w)" for x using assms(1) cur(1) by (simp add: wf_write)
    then show ?thesis
      using assms(2) b r pp cur(2) src by (auto simp: assign_copy_def dest: wf_finish)
  next
    case ep
    from deref_live [OF assms(1) r ep(2)] obtain src where
      src: "deref (value_ptr r) w = Some (rhs, src)" by blast
    show ?thesis
      using assms b r ep src wf_emplace [OF assms(1) b ep(1)]
      by (auto simp: assign_copy_def split: sum.splits)
  next
    case pe
    then show ?thesis
      using assms(2) b r wf_unset [OF assms(1) b pe(1)] by (auto simp: assign_copy_def)
  next
    case ee
    then show ?thesis using assms b r by (auto simp: assign_copy_def)
  qed
qed

lemma wf_assign_move:
  assumes "wf_world w" and "assign_move T this rhs w = Some (out, w')"
  shows "wf_world w'"
proof -
  obtain b r where b: "boxes w this = Some b" and r: "boxes w rhs = Some r"
    using assms(2) by (auto simp: assign_move_def split: option.splits)
  consider (pp) "is_initialized b" "is_initialized r" | (ep) "\<not> is_initialized b" "is_initialized r"
    | (pe) "is_initialized b" "\<not> is_initialized r" | (ee) "\<not> is_initialized b" "\<not> is_initialized r"
    by blast
  then show ?thesis
  proof cases
    case pp
    from deref_live [OF assms(1) b pp(1)] obtain cur where
      cur: "objs w this = Some cur" "deref (value_ptr b) w = Some (this, cur)" by blast
    from deref_live [OF assms(1) r pp(2)] obtain src where
      src: "objs w rhs = Some src" "deref (value_ptr r) w = Some (rhs, src)" by blast
    have two: "wf_world (write_at this x (write_at rhs y w))" for x y
      using assms(1) cur(1) src(1) by (simp add: wf_write sel_write_at)
    have one: "wf_world (write_at this x w)" for x
      using assms(1) cur(1) by (simp add: wf_write)
    show ?thesis
      using assms(2) b r pp cur(2) src(2) one two
      by (auto simp: assign_move_def finish_cases split: if_splits)
  next
    case ep
    from deref_live [OF assms(1) r ep(2)] obtain src where
      src: "objs w rhs = Some src" "deref (value_ptr r) w = Some (rhs, src)" by blast
    let ?w1 = "write_at rhs (snd (T_move T src)) w"
    have w1: "wf_world ?w1" using assms(1) src(1) by (simp add: wf_write)
    have b1: "boxes ?w1 this = Some b" using b by (simp add: sel_write_at)
    show ?thesis
      using assms(2) b r ep src(2) w1 wf_emplace [OF w1 b1 ep(1)]
      by (auto simp: assign_move_def Let_def split: sum.splits)
  next
    case pe
    then show ?thesis
      using assms(2) b r wf_unset [OF assms(1) b pe(1)] by (auto simp: assign_move_def)
  next
    case ee
    then show ?thesis using assms b r by (auto simp: assign_move_def)
  qed
qed

lemma wf_Reset:
  assumes "wf_world w" and "Reset this w = Some w'"
  shows "wf_world w'"
proof -
  obtain b where b: "boxes w this = Some b"
    using assms(2) by (auto simp: Reset_def split: option.splits)
  show ?thesis
  proof (cases "is_initialized b")
    case True
    then show ?thesis using assms(2) b wf_unset [OF assms(1) b True] by (auto simp: Reset_def)
  next
    case False
    then show ?thesis using assms b by (auto simp: Reset_def)
  qed
qed

lemma Reset_clears:
  assumes "Reset this w = Some w'"
  shows "\<exists>b. boxes w' this = Some b \<and> \<not> is_initialized b"
  using assms
  by (auto simp: Reset_def destroy_at_def sel_set_box split: option.splits if_splits)

lemma wf_destructor:
  assumes "wf_world w" and "destructor this w = Some w'"
  shows "wf_world w'"
proof -
  obtain w1 where w1: "Reset this w = Some w1" and w': "w' = w1\<lparr>boxes := (boxes w1)(this := None)\<rparr>"
    using assms(2) by (auto simp: destructor_def split: option.splits)
  from Reset_clears [OF w1] obtain b where "boxes w1 this = Some b" "\<not> is_initialized b" by blast
  then show ?thesis using wf_ended [OF wf_Reset [OF assms(1) w1]] w' by simp
qed

lemma wf_exec:
  assumes "wf_world w" and "exec T x w = Some (out, w')"
  shows "wf_world w'"
proof (cases x)
  case (New_default this)
  then have "construct_box this (Optional_default this w) w = Some (out, w')"
    using assms(2) by simp
  then show ?thesis
    using wf_Optional_default [OF assms(1), of this out w']
    by (auto simp: construct_box_def split: if_splits)
next
  case (New_copy_value this val)
  then show ?thesis using assms(2) wf_Optional_copy_value [OF assms(1)] by simp
next
  case (New_move_value this val)
  then show ?thesis using assms(2) wf_Optional_move_value [OF assms(1)] by simp
next
  case (New_copy this other)
  then show ?thesis using assms(2) wf_Optional_copy [OF assms(1)] by simp
next
  case (New_move this other)
  then show ?thesis using assms(2) wf_Optional_move [OF assms(1)] by simp
next
  case (Assign_copy_value this val)
  then show ?thesis using assms(2) wf_assign_copy_value [OF assms(1)] by simp
next
  case (Assign_move_value this val)
  then show ?thesis using assms(2) wf_assign_move_value [OF assms(1)] by simp
next
  case (Assign_copy this rhs)
  then show ?thesis using assms(2) wf_assign_copy [OF assms(1)] by simp
next
  case (Assign_move this rhs)
  then show ?thesis using assms(2) wf_assign_move [OF assms(1)] by simp
next
  case (Call_Reset this)
  then show ?thesis
    using assms(2) wf_Reset [OF assms(1)] by (auto simp: returning_def split: option.splits)
next
  case (Delete this)
  then show ?thesis
    using assms(2) wf_destructor [OF assms(1)] by (auto simp: returning_def split: option.splits)
qed

lemma wf_run:
  "wf_world w \<Longrightarrow> run T xs w = Some w' \<Longrightarrow> wf_world w'"
proof (induction xs arbitrary: w)
  case Nil
  then show ?case by simp
next
  case (Cons x xs)
  from Cons.prems(2) obtain out w1 where
    step: "exec T x w = Some (out, w1)" and rest: "run T xs w1 = Some w'"
    by (auto split: option.splits)
  from Cons.IH [OF wf_exec [OF Cons.prems(1) step] rest] show ?case .
qed

subsection \<open>Every operation on live boxes is defined\<close>

lemma Reset_defined:
  assumes "wf_world w" and "boxes w this = Some b"
  shows "Reset this w =
     Some (if is_initialized b
           then set_box this (b\<lparr>is_initialized := False\<rparr>)
                  (w\<lparr>objs := (objs w)(this := None), destroyed := Suc (destroyed w)\<rparr>)
           else w)"
proof (cases "is_initialized b")
  case True
  then show ?thesis using assms(2) destroy_at_live [OF assms True] by (simp add: Reset_def)
next
  case False
  then show ?thesis using assms(2) by (simp add: Reset_def)
qed

lemma destructor_defined:
  assumes "wf_world w" and "boxes w this = Some b"
  shows "\<exists>w1. Reset this w = Some w1
           \<and> destructor this w = Some (w1\<lparr>boxes := (boxes w1)(this := None)\<rparr>)
           \<and> objs w1 = (objs w)(data_addr this := None)
           \<and> constructed w1 = constructed w
           \<and> destroyed w1 = destroyed w + (if is_initialized b then 1 else 0)"
proof (cases "is_initialized b")
  case True
  then show ?thesis
    using Reset_defined [OF assms] by (simp add: destructor_def sel_set_box data_addr_def)
next
  case False
  then have "objs w this = None" using wf_objs_none [OF assms] by simp
  then have "(objs w)(this := None) = objs w" by (simp add: fun_upd_idem)
  then show ?thesis
    using False Reset_defined [OF assms] by (simp add: destructor_def data_addr_def)
qed

lemma finish_defined: "\<exists>out w'. finish err this w = Some (out, w')"
  by (cases err) (simp_all add: finish_def)

lemma exec_defined:
  assumes "wf_world w" and "op_ok w x"
  shows "\<exists>out w'. exec T x w = Some (out, w')"
proof (cases x)
  case (New_default this)
  then show ?thesis using assms(2) by (simp add: construct_box_def Optional_default_def)
next
  case (New_copy_value this val)
  then show ?thesis
    using assms(2) by (auto simp: construct_box_def Optional_copy_value_def split: sum.splits)
next
  case (New_move_value this val)
  then show ?thesis
    using assms(2) by (auto simp: construct_box_def Optional_move_value_def split: sum.splits)
next
  case (New_copy this other)
  with assms(2) obtain ob where dead: "boxes w this = None" and ob: "boxes w other = Some ob"
    by auto
  show ?thesis
  proof (cases "is_initialized ob")
    case True
    from wf_objs_box [OF assms(1) ob True] show ?thesis
      using New_copy dead ob True
      by (auto simp: construct_box_def Optional_copy_def Value_live(2) [OF assms(1) ob True]
            split: sum.splits)
  next
    case False
    then show ?thesis using New_copy dead ob by (simp add: construct_box_def Optional_copy_def)
  qed
next
  case (New_move this other)
  with assms(2) obtain ob where dead: "boxes w this = None" and ob: "boxes w other = Some ob"
    by auto
  show ?thesis
  proof (cases "is_initialized ob")
    case True
    from wf_objs_box [OF assms(1) ob True] show ?thesis
      using New_move dead ob True
      by (auto simp: construct_box_def Optional_move_def Let_def
            Value_live(1) [OF assms(1) ob True] split: sum.splits)
  next
    case False
    then show ?thesis using New_move dead ob by (simp add: construct_box_def Optional_move_def)
  qed
next
  case (Assign_copy_value this val)
  with assms(2) obtain b where b: "boxes w this = Some b" by auto
  show ?thesis
  proof (cases "is_initialized b")
    case True
    from deref_live [OF assms(1) b True] show ?thesis
      using Assign_copy_value b True finish_defined by (auto simp: assign_copy_value_def)
  next
    case False
    then show ?thesis
      using Assign_copy_value b by (auto simp: assign_copy_value_def split: sum.splits)
  qed
next
  case (Assign_move_value this val)
  with assms(2) obtain b where b: "boxes w this = Some b" by auto
  show ?thesis
  proof (cases "is_initialized b")
    case True
    from deref_live [OF assms(1) b True] show ?thesis
      using Assign_move_value b True finish_defined by (auto simp: assign_move_value_def)
  next
    case False
    then show ?thesis
      using Assign_move_value b by (auto simp: assign_move_value_def split: sum.splits)
  qed
next
  case (Assign_copy this rhs)
  with assms(2) obtain b r where b: "boxes w this = Some b" and r: "boxes w rhs = Some r" by auto
  consider (pp) "is_initialized b" "is_initialized r" | (ep) "\<not> is_initialized b" "is_initialized r"
    | (pe) "is_initialized b" "\<not> is_initialized r" | (ee) "\<not> is_initialized b" "\<not> is_initialized r"
    by blast
  then show ?thesis
  proof cases
    case pp
    from deref_live [OF assms(1) b pp(1)] deref_live [OF assms(1) r pp(2)] show ?thesis
      using Assign_copy b r pp finish_defined by (auto simp: assign_copy_def)
  next
    case ep
    from deref_live [OF assms(1) r ep(2)] show ?thesis
      using Assign_copy b r ep by (auto simp: assign_copy_def split: sum.splits)
  next
    case pe
    then show ?thesis
      using Assign_copy b r destroy_at_live [OF assms(1) b pe(1)] by (simp add: assign_copy_def)
  next
    case ee
    then show ?thesis using Assign_copy b r by (simp add: assign_copy_def)
  qed
next
  case (Assign_move this rhs)
  with assms(2) obtain b r where b: "boxes w this = Some b" and r: "boxes w rhs = Some r" by auto
  consider (pp) "is_initialized b" "is_initialized r" | (ep) "\<not> is_initialized b" "is_initialized r"
    | (pe) "is_initialized b" "\<not> is_initialized r" | (ee) "\<not> is_initialized b" "\<not> is_initialized r"
    by blast
  then show ?thesis
  proof cases
    case pp
    from deref_live [OF assms(1) b pp(1)] deref_live [OF assms(1) r pp(2)] show ?thesis
      using Assign_move b r pp finish_defined by (auto simp: assign_move_def)
  next
    case ep
    from deref_live [OF assms(1) r ep(2)] show ?thesis
      using Assign_move b r ep by (auto simp: assign_move_def Let_def split: sum.splits)
  next
    case pe
    then show ?thesis
      using Assign_move b r destroy_at_live [OF assms(1) b pe(1)] by (simp add: assign_move_def)
  next
    case ee
    then show ?thesis using Assign_move b r by (simp add: assign_move_def)
  qed
next
  case (Call_Reset this)
  with assms(2) obtain b where b: "boxes w this = Some b" by auto
  show ?thesis using Call_Reset Reset_defined [OF assms(1) b] by (simp add: returning_def)
next
  case (Delete this)
  with assms(2) obtain b where b: "boxes w this = Some b" by auto
  show ?thesis
    using Delete Reset_defined [OF assms(1) b] by (simp add: returning_def destructor_def)
qed

subsection \<open>What an operation leaves alone\<close>

lemma frame_New:
  assumes "a \<noteq> this"
  shows "construct_box this (Optional_default this w) w = Some (out, w') \<Longrightarrow>
           objs w' a = objs w a \<and> boxes w' a = boxes w a"
    and "construct_box this (Optional_copy_value T this val w) w = Some (out, w') \<Longrightarrow>
           objs w' a = objs w a \<and> boxes w' a = boxes w a"
    and "construct_box this (Optional_move_value T this val w) w = Some (out, w') \<Longrightarrow>
           objs w' a = objs w a \<and> boxes w' a = boxes w a"
    and "construct_box this (Optional_copy T this other w) w = Some (out, w') \<Longrightarrow>
           objs w' a = objs w a \<and> boxes w' a = boxes w a"
  using assms
  by (auto simp: construct_box_def Optional_default_def Optional_copy_value_def
        Optional_move_value_def Optional_copy_def Value_const_def
        sel_set_box sel_construct_at data_addr_def
        split: sum.splits option.splits if_splits)

lemma frame_New_move:
  assumes "construct_box this (Optional_move T this other w) w = Some (out, w')"
    and "wf_world w" and "a \<noteq> this" and "a \<noteq> other"
  shows "objs w' a = objs w a \<and> boxes w' a = boxes w a"
proof -
  obtain ob where ob: "boxes w other = Some ob" and dead: "boxes w this = None"
    using assms(1)
    by (auto simp: construct_box_def Optional_move_def split: option.splits if_splits)
  show ?thesis
  proof (cases "is_initialized ob")
    case True
    from wf_objs_box [OF assms(2) ob True] obtain src where "objs w other = Some src" by blast
    then show ?thesis
      using assms(1,3,4) ob dead True
      by (auto simp: construct_box_def Optional_move_def Let_def
            Value_live(1) [OF assms(2) ob True] sel_set_box sel_construct_at sel_write_at
            data_addr_def split: sum.splits)
  next
    case False
    then show ?thesis
      using assms(1,3) ob dead
      by (auto simp: construct_box_def Optional_move_def sel_set_box)
  qed
qed

lemma frame_assign_value:
  assumes "wf_world w" and "a \<noteq> this"
  shows "assign_copy_value T this val w = Some (out, w') \<Longrightarrow>
           objs w' a = objs w a \<and> boxes w' a = boxes w a"
    and "assign_move_value T this val w = Some (out, w') \<Longrightarrow>
           objs w' a = objs w a \<and> boxes w' a = boxes w a"
proof -
  have "objs w' a = objs w a \<and> boxes w' a = boxes w a"
    if r: "assign_copy_value T this val w = Some (out, w')
        \<or> assign_move_value T this val w = Some (out, w')"
  proof -
    obtain b where b: "boxes w this = Some b"
      using r by (auto simp: assign_copy_value_def assign_move_value_def split: option.splits)
    show ?thesis
    proof (cases "is_initialized b")
      case True
      from deref_live [OF assms(1) b True] obtain cur where
        "deref (value_ptr b) w = Some (this, cur)" by blast
      then show ?thesis
        using r b True assms(2)
        by (auto simp: assign_copy_value_def assign_move_value_def finish_cases sel_write_at)
    next
      case False
      then show ?thesis
        using r b assms(2)
        by (auto simp: assign_copy_value_def assign_move_value_def sel_set_box
              sel_construct_at data_addr_def split: sum.splits)
    qed
  qed
  then show "assign_copy_value T this val w = Some (out, w') \<Longrightarrow>
           objs w' a = objs w a \<and> boxes w' a = boxes w a"
    and "assign_move_value T this val w = Some (out, w') \<Longrightarrow>
           objs w' a = objs w a \<and> boxes w' a = boxes w a"
    by blast+
qed

lemma frame_unset:
  assumes "wf_world w" and "boxes w this = Some b" and "is_initialized b" and "a \<noteq> this"
    and "destroy_at (value_ptr b) w = Some w1"
  shows "objs w1 a = objs w a \<and> boxes w1 a = boxes w a"
  using destroy_at_live [OF assms(1-3)] assms(4,5) by auto

lemma frame_assign_copy:
  assumes "wf_world w" and "a \<noteq> this" and "assign_copy T this rhs w = Some (out, w')"
  shows "objs w' a = objs w a \<and> boxes w' a = boxes w a"
proof -
  obtain b r where b: "boxes w this = Some b" and r: "boxes w rhs = Some r"
    using assms(3) by (auto simp: assign_copy_def split: option.splits)
  consider (pp) "is_initialized b" "is_initialized r" | (ep) "\<not> is_initialized b" "is_initialized r"
    | (pe) "is_initialized b" "\<not> is_initialized r" | (ee) "\<not> is_initialized b" "\<not> is_initialized r"
    by blast
  then show ?thesis
  proof cases
    case pp
    from deref_live [OF assms(1) b pp(1)] deref_live [OF assms(1) r pp(2)]
    show ?thesis
      using assms(2,3) b r pp by (auto simp: assign_copy_def finish_cases sel_write_at)
  next
    case ep
    from deref_live [OF assms(1) r ep(2)]
    show ?thesis
      using assms(2,3) b r ep
      by (auto simp: assign_copy_def sel_set_box sel_construct_at data_addr_def
            split: sum.splits)
  next
    case pe
    then show ?thesis
      using assms(2,3) b r destroy_at_live [OF assms(1) b pe(1)]
      by (auto simp: assign_copy_def sel_set_box)
  next
    case ee
    then show ?thesis using assms(3) b r by (auto simp: assign_copy_def)
  qed
qed

lemma frame_assign_move:
  assumes "wf_world w" and "a \<noteq> this" and "a \<noteq> rhs"
    and "assign_move T this rhs w = Some (out, w')"
  shows "objs w' a = objs w a \<and> boxes w' a = boxes w a"
proof -
  obtain b r where b: "boxes w this = Some b" and r: "boxes w rhs = Some r"
    using assms(4) by (auto simp: assign_move_def split: option.splits)
  consider (pp) "is_initialized b" "is_initialized r" | (ep) "\<not> is_initialized b" "is_initialized r"
    | (pe) "is_initialized b" "\<not> is_initialized r" | (ee) "\<not> is_initialized b" "\<not> is_initialized r"
    by blast
  then show ?thesis
  proof cases
    case pp
    from deref_live [OF assms(1) b pp(1)] deref_live [OF assms(1) r pp(2)]
    show ?thesis
      using assms(2-4) b r pp
      by (auto simp: assign_move_def finish_cases sel_write_at split: if_splits)
  next
    case ep
    from deref_live [OF assms(1) r ep(2)]
    show ?thesis
      using assms(2-4) b r ep
      by (auto simp: assign_move_def Let_def sel_set_box sel_construct_at sel_write_at
            data_addr_def split: sum.splits)
  next
    case pe
    then show ?thesis
      using assms(2,4) b r destroy_at_live [OF assms(1) b pe(1)]
      by (auto simp: assign_move_def sel_set_box)
  next
    case ee
    then show ?thesis using assms(4) b r by (auto simp: assign_move_def)
  qed
qed

lemma frame_Reset:
  assumes "wf_world w" and "a \<noteq> this" and "Reset this w = Some w'"
  shows "objs w' a = objs w a \<and> boxes w' a = boxes w a"
proof -
  obtain b where b: "boxes w this = Some b"
    using assms(3) by (auto simp: Reset_def split: option.splits)
  show ?thesis
    using assms(2,3) Reset_defined [OF assms(1) b] by (auto simp: sel_set_box)
qed

lemma frame_destructor:
  assumes "wf_world w" and "a \<noteq> this" and "destructor this w = Some w'"
  shows "objs w' a = objs w a \<and> boxes w' a = boxes w a"
  using assms(2,3) frame_Reset [OF assms(1,2)]
  by (auto simp: destructor_def split: option.splits)

lemma exec_frame:
  assumes "wf_world w" and "exec T x w = Some (out, w')"
    and "a \<noteq> target x" and "moved_from x \<noteq> Some a"
  shows "objs w' a = objs w a \<and> boxes w' a = boxes w a"
proof (cases x)
  case (New_default this)
  then show ?thesis using assms(2,3) frame_New(1) [of a this w out w'] by simp
next
  case (New_copy_value this val)
  then show ?thesis using assms(2,3) frame_New(2) [of a this T val w out w'] by simp
next
  case (New_move_value this val)
  then show ?thesis using assms(2,3) frame_New(3) [of a this T val w out w'] by simp
next
  case (New_copy this other)
  then show ?thesis using assms(2,3) frame_New(4) [of a this T other w out w'] by simp
next
  case (New_move this other)
  then show ?thesis
    using assms(2-4) frame_New_move [of this T other w out w' a, OF _ assms(1)] by simp
next
  case (Assign_copy_value this val)
  then show ?thesis
    using assms(2,3) frame_assign_value(1) [OF assms(1), of a this T val out w'] by simp
next
  case (Assign_move_value this val)
  then show ?thesis
    using assms(2,3) frame_assign_value(2) [OF assms(1), of a this T val out w'] by simp
next
  case (Assign_copy this rhs)
  then show ?thesis
    using assms(2,3) frame_assign_copy [OF assms(1), of a this T rhs out w'] by simp
next
  case (Assign_move this rhs)
  then show ?thesis
    using assms(2-4) frame_assign_move [OF assms(1), of a this rhs T out w'] by simp
next
  case (Call_Reset this)
  then show ?thesis
    using assms(2,3) frame_Reset [OF assms(1), of a this]
    by (auto simp: returning_def split: option.splits)
next
  case (Delete this)
  then show ?thesis
    using assms(2,3) frame_destructor [OF assms(1), of a this]
    by (auto simp: returning_def split: option.splits)
qed

subsection \<open>Construction from a present box\<close>

lemma New_copy_present:
  assumes "wf_world w" and "boxes w this = None" and "boxes w other = Some ob"
    and "is_initialized ob" and "objs w other = Some src"
  shows "exec T (New_copy this other) w =
     (case T_copy T src of
        Inl e \<Rightarrow> Some (Thrown (T_exception e), w)
      | Inr v \<Rightarrow>
          Some (Returned this,
                set_box this \<lparr>is_initialized = True, value_ptr = Some this\<rparr>
                  (construct_at this v w)))"
  using assms(2-5)
  by (simp add: construct_box_def Optional_copy_def Value_live(2) [OF assms(1,3,4)]
        data_addr_def split: sum.splits)

lemma New_move_present:
  assumes "wf_world w" and "boxes w this = None" and "boxes w other = Some ob"
    and "is_initialized ob" and "objs w other = Some src"
  shows "exec T (New_move this other) w =
     (case fst (T_move T src) of
        Inl e \<Rightarrow> Some (Thrown (T_exception e), write_at other (snd (T_move T src)) w)
      | Inr v \<Rightarrow>
          Some (Returned this,
                set_box this \<lparr>is_initialized = True, value_ptr = Some this\<rparr>
                  (construct_at this v (write_at other (snd (T_move T src)) w))))"
  using assms(2-5)
  by (simp add: construct_box_def Optional_move_def Value_live(1) [OF assms(1,3,4)]
        data_addr_def Let_def split: sum.splits)

subsection \<open>No operation throws \<open>BadOptionalAccess\<close>\<close>

lemma ctor_no_BadOptionalAccess:
  "Optional_default this w \<noteq> Some (Ctor_thrown BadOptionalAccess flag, w')"
  "Optional_copy_value T this val w \<noteq> Some (Ctor_thrown BadOptionalAccess flag, w')"
  "Optional_move_value T this val w \<noteq> Some (Ctor_thrown BadOptionalAccess flag, w')"
  by (auto simp: Optional_default_def Optional_copy_value_def Optional_move_value_def
        split: sum.splits)

lemma Optional_copy_no_BadOptionalAccess:
  "Optional_copy T this other w \<noteq> Some (Ctor_thrown BadOptionalAccess flag, w')"
  by (auto simp: Optional_copy_def Value_const_def split: option.splits sum.splits)

lemma Optional_move_no_BadOptionalAccess:
  "Optional_move T this other w \<noteq> Some (Ctor_thrown BadOptionalAccess flag, w')"
  by (auto simp: Optional_move_def Value_def Let_def split: option.splits sum.splits)

lemma construct_box_Thrown:
  "construct_box this r w = Some (Thrown e, w') \<Longrightarrow> \<exists>flag. r = Some (Ctor_thrown e flag, w')"
  by (auto simp: construct_box_def split: if_splits option.splits ctor_result.splits)

lemma finish_no_BadOptionalAccess: "finish err this w \<noteq> Some (Thrown BadOptionalAccess, w')"
  by (simp add: finish_def split: option.splits)

lemma assign_no_BadOptionalAccess:
  "assign_copy_value T this val w \<noteq> Some (Thrown BadOptionalAccess, w')"
  "assign_move_value T this val w \<noteq> Some (Thrown BadOptionalAccess, w')"
  "assign_copy T this rhs w \<noteq> Some (Thrown BadOptionalAccess, w')"
  "assign_move T this rhs w \<noteq> Some (Thrown BadOptionalAccess, w')"
  by (auto simp: assign_copy_value_def assign_move_value_def assign_copy_def assign_move_def
        finish_no_BadOptionalAccess Let_def split: option.splits sum.splits)

lemma exec_no_BadOptionalAccess:
  "exec T x w \<noteq> Some (Thrown BadOptionalAccess, w')"
proof (cases x)
  case (Call_Reset this)
  then show ?thesis by (simp add: returning_def split: option.splits)
next
  case (Delete this)
  then show ?thesis by (simp add: returning_def split: option.splits)
qed (auto simp: ctor_no_BadOptionalAccess Optional_copy_no_BadOptionalAccess
      Optional_move_no_BadOptionalAccess assign_no_BadOptionalAccess
     dest!: construct_box_Thrown)

subsection \<open>The concrete stores satisfy the invariant\<close>

lemma wf_w_present: "wf_world w_present"
  by (auto simp: wf_world_def w_present_def data_addr_def)

lemma wf_w_empty: "wf_world w_empty"
  by (auto simp: wf_world_def w_empty_def data_addr_def)



lemma wf_w_zero: "wf_world w_zero"
  by (auto simp: wf_world_def w_zero_def data_addr_def)

section \<open>The claims\<close>

subsection \<open>The accessor \<open>Value()\<close>\<close>

text \<open>
  C1. On a live box whose flag is false, both forms of \<open>Value()\<close> throw
  \<open>BadOptionalAccess\<close> and return nothing. On a live box whose flag is true, in a store that
  satisfies the invariant, both return a reference to the buffer of the box, where a live
  \<open>T\<close> is, and throw nothing. No constructor, assignment, \<open>Reset()\<close> or destructor ever
  leaves by \<open>BadOptionalAccess\<close>: what they throw is an exception of \<open>T\<close>.
\<close>

theorem Value_throws_iff_empty:
  assumes "boxes w this = Some b"
  shows "(\<not> is_initialized b \<longrightarrow>
            Value this w = Some (Thrown BadOptionalAccess :: (addr, 'e) outcome)
          \<and> Value_const this w = Some (Thrown BadOptionalAccess :: (addr, 'e) outcome))
       \<and> (is_initialized b \<longrightarrow> wf_world w \<longrightarrow>
            Value this w = Some (Returned (data_addr this) :: (addr, 'e) outcome)
          \<and> Value_const this w = Some (Returned (data_addr this) :: (addr, 'e) outcome)
          \<and> objs w (data_addr this) \<noteq> None)
       \<and> (\<forall>(T :: ('v, 'e) T_ops) x ws out w'.
            exec T x ws = Some (out, w') \<longrightarrow> out \<noteq> Thrown BadOptionalAccess)"
proof (intro conjI impI allI)
  assume "\<not> is_initialized b"
  then show "Value this w = Some (Thrown BadOptionalAccess :: (addr, 'e) outcome)"
    and "Value_const this w = Some (Thrown BadOptionalAccess :: (addr, 'e) outcome)"
    using assms by (simp_all add: Value_def Value_const_def)
next
  assume live: "is_initialized b" and ok: "wf_world w"
  show "Value this w = Some (Returned (data_addr this) :: (addr, 'e) outcome)"
    and "Value_const this w = Some (Returned (data_addr this) :: (addr, 'e) outcome)"
    by (simp_all add: Value_live [OF ok assms live] data_addr_def)
  show "objs w (data_addr this) \<noteq> None"
    using wf_objs_box [OF ok assms live] by (auto simp: data_addr_def)
next
  fix T :: "('v, 'e) T_ops" and x ws out w'
  assume "exec T x ws = Some (out, w')"
  then show "out \<noteq> Thrown BadOptionalAccess"
    using exec_no_BadOptionalAccess [of T x ws w'] by auto
qed

theorem Value_throws_iff_empty_witness:
  "boxes w_present 1 = Some \<lparr>is_initialized = True, value_ptr = Some 1\<rparr>
   \<and> wf_world w_present
   \<and> Value 1 w_present = Some (Returned 1 :: (addr, nat) outcome)
   \<and> Value_const 1 w_present = Some (Returned 1 :: (addr, nat) outcome)
   \<and> objs w_present 1 = Some 5
   \<and> boxes w_empty 1 = Some \<lparr>is_initialized = False, value_ptr = None\<rparr>
   \<and> Value 1 w_empty = Some (Thrown BadOptionalAccess :: (addr, nat) outcome)
   \<and> Value_const 1 w_empty = Some (Thrown BadOptionalAccess :: (addr, nat) outcome)
   \<and> exec plain_T (New_copy 2 1) w_present \<noteq> Some (Thrown BadOptionalAccess, w_present)"
proof -
  have p: "boxes w_present 1 = Some \<lparr>is_initialized = True, value_ptr = Some 1\<rparr>"
    by (simp add: w_present_def)
  have e: "boxes w_empty 1 = Some \<lparr>is_initialized = False, value_ptr = None\<rparr>"
    by (simp add: w_empty_def)
  have v: "objs w_present 1 = Some 5" by (simp add: w_present_def)
  note t = Value_throws_iff_empty [OF p, where ?'e = nat and ?'v = nat]
  have x: "exec plain_T (New_copy 2 1) w_present \<noteq> Some (Thrown BadOptionalAccess, w_present)"
    using t by blast
  have a: "Value 1 w_present = Some (Returned 1 :: (addr, nat) outcome)
      \<and> Value_const 1 w_present = Some (Returned 1 :: (addr, nat) outcome)"
    using t wf_w_present by (simp add: data_addr_def)
  have b: "Value 1 w_empty = Some (Thrown BadOptionalAccess :: (addr, nat) outcome)
      \<and> Value_const 1 w_empty = Some (Thrown BadOptionalAccess :: (addr, nat) outcome)"
    using Value_throws_iff_empty [OF e, where ?'e = nat and ?'v = nat] by simp
  show ?thesis using p e v wf_w_present x a b by blast
qed

subsection \<open>Assignment of a box\<close>



subsection \<open>Construction from a value\<close>

text \<open>
  C3. Where no box lives yet: when the copy constructor of \<open>T\<close> makes \<open>v'\<close> from \<open>v\<close> (for a
  \<open>T\<close> that copies faithfully \<open>v'\<close> is \<open>v\<close>), \<open>Optional(const T&)\<close> returns, the new box has
  \<open>HasValue() == true\<close> and \<open>Value()\<close> returns a reference to a \<open>T\<close> in state \<open>v'\<close>; the same
  holds for \<open>Optional(T&&)\<close> and the move constructor of \<open>T\<close>; and a default-constructed box
  has \<open>HasValue() == false\<close>.
\<close>

theorem construct_from_value:
  assumes "boxes w this = None"
  shows "(\<forall>v'. T_copy T v = Inr v' \<longrightarrow>
            (\<exists>w'. exec T (New_copy_value this v) w = Some (Returned this, w')
               \<and> HasValue this w' = Some True
               \<and> Value this w' = Some (Returned (data_addr this) :: (addr, 'e) outcome)
               \<and> objs w' (data_addr this) = Some v'))
       \<and> (\<forall>v'. fst (T_move T v) = Inr v' \<longrightarrow>
            (\<exists>w'. exec T (New_move_value this v) w = Some (Returned this, w')
               \<and> HasValue this w' = Some True
               \<and> Value this w' = Some (Returned (data_addr this) :: (addr, 'e) outcome)
               \<and> objs w' (data_addr this) = Some v'))
       \<and> (\<exists>w'. exec (T :: ('v, 'e) T_ops) (New_default this) w = Some (Returned this, w')
               \<and> HasValue this w' = Some False)"
  using assms
  by (simp add: construct_box_def Optional_copy_value_def Optional_move_value_def
        Optional_default_def HasValue_def Value_def sel_set_box sel_construct_at)

theorem construct_from_value_witness:
  "boxes (empty_world :: nat world) 1 = None
   \<and> T_copy plain_T 5 = Inr 5 \<and> fst (T_move plain_T 5) = Inr 5
   \<and> (\<exists>w'. exec plain_T (New_copy_value 1 5) empty_world = Some (Returned 1, w')
          \<and> HasValue 1 w' = Some True
          \<and> Value 1 w' = Some (Returned (data_addr 1) :: (addr, nat) outcome)
          \<and> objs w' (data_addr 1) = Some 5)
   \<and> (\<exists>w'. exec plain_T (New_move_value 1 5) empty_world = Some (Returned 1, w')
          \<and> HasValue 1 w' = Some True
          \<and> Value 1 w' = Some (Returned (data_addr 1) :: (addr, nat) outcome)
          \<and> objs w' (data_addr 1) = Some 5)
   \<and> (\<exists>w'. exec plain_T (New_default 1) empty_world = Some (Returned 1, w')
          \<and> HasValue 1 w' = Some False)"
proof -
  have d: "boxes (empty_world :: nat world) 1 = None" by (simp add: empty_world_def)
  have c: "T_copy plain_T 5 = Inr 5" and m: "fst (T_move plain_T 5) = Inr 5"
    by (simp_all add: plain_T_def)
  from construct_from_value [OF d, of plain_T 5] show ?thesis using d c m by blast
qed

subsection \<open>Assignment of a value\<close>

text \<open>
  C4. In a store that satisfies the invariant, for a live box and a value \<open>v\<close>, with
  \<open>operator=(const T&)\<close> and with \<open>operator=(T&&)\<close>:
  \<^item> when the box is empty and the constructor of \<open>T\<close> makes \<open>v'\<close> from \<open>v\<close>, the assignment
    returns, the box is present and holds \<open>v'\<close>, and one \<open>T\<close> was constructed and none
    destroyed;
  \<^item> when the box holds a \<open>T\<close> in state \<open>cur\<close>, that same object is given the state the
    assignment operator of \<open>T\<close> leaves it in, no \<open>T\<close> is constructed or destroyed, the box
    stays present, and the call returns unless the operator of \<open>T\<close> throws;
  \<^item> however the call ends, a box that was present is present, and a call that returns leaves
    the box present.
\<close>

theorem assign_value_never_empties:
  assumes "wf_world w" and "boxes w this = Some b"
  shows "(\<not> is_initialized b \<longrightarrow>
            (\<forall>v'. T_copy T v = Inr v' \<longrightarrow>
               (\<exists>w'. assign_copy_value T this v w = Some (Returned this, w')
                  \<and> HasValue this w' = Some True
                  \<and> objs w' (data_addr this) = Some v'
                  \<and> constructed w' = Suc (constructed w) \<and> destroyed w' = destroyed w))
          \<and> (\<forall>v'. fst (T_move T v) = Inr v' \<longrightarrow>
               (\<exists>w'. assign_move_value T this v w = Some (Returned this, w')
                  \<and> HasValue this w' = Some True
                  \<and> objs w' (data_addr this) = Some v'
                  \<and> constructed w' = Suc (constructed w) \<and> destroyed w' = destroyed w)))
       \<and> (is_initialized b \<longrightarrow>
            (\<exists>cur. objs w (data_addr this) = Some cur
               \<and> (\<exists>out w'. assign_copy_value T this v w = Some (out, w')
                     \<and> (fst (T_copy_assign T cur v) = None \<longrightarrow> out = Returned this)
                     \<and> HasValue this w' = Some True
                     \<and> objs w' (data_addr this) = Some (snd (T_copy_assign T cur v))
                     \<and> constructed w' = constructed w \<and> destroyed w' = destroyed w)
               \<and> (\<exists>out w'. assign_move_value T this v w = Some (out, w')
                     \<and> (fst (T_move_assign T cur v) = None \<longrightarrow> out = Returned this)
                     \<and> HasValue this w' = Some True
                     \<and> objs w' (data_addr this) = Some (fst (snd (T_move_assign T cur v)))
                     \<and> constructed w' = constructed w \<and> destroyed w' = destroyed w)))
       \<and> (\<forall>out w'. assign_copy_value T this v w = Some (out, w')
                    \<or> assign_move_value T this v w = Some (out, w') \<longrightarrow>
                  is_initialized b \<or> out = Returned this \<longrightarrow> HasValue this w' = Some True)"
proof (cases "is_initialized b")
  case True
  from deref_live [OF assms True] obtain cur where
    cur: "objs w this = Some cur" "deref (value_ptr b) w = Some (this, cur)" by blast
  show ?thesis
    using True assms(2) cur
    by (auto simp: assign_copy_value_def assign_move_value_def finish_cases HasValue_def
          sel_write_at data_addr_def)
next
  case False
  then show ?thesis
    using assms(2)
    by (auto simp: assign_copy_value_def assign_move_value_def HasValue_def
          sel_set_box sel_construct_at data_addr_def split: sum.splits)
qed

theorem assign_value_never_empties_witness:
  "wf_world w_present
   \<and> boxes w_present 1 = Some \<lparr>is_initialized = True, value_ptr = Some 1\<rparr>
   \<and> objs w_present (data_addr 1) = Some 5
   \<and> (\<exists>w'. assign_copy_value plain_T 1 7 w_present = Some (Returned 1, w')
          \<and> HasValue 1 w' = Some True
          \<and> objs w' (data_addr 1) = Some 7
          \<and> constructed w' = constructed w_present \<and> destroyed w' = destroyed w_present)
   \<and> wf_world w_empty
   \<and> boxes w_empty 1 = Some \<lparr>is_initialized = False, value_ptr = None\<rparr>
   \<and> (\<exists>w'. assign_copy_value plain_T 1 5 w_empty = Some (Returned 1, w')
          \<and> HasValue 1 w' = Some True
          \<and> objs w' (data_addr 1) = Some 5
          \<and> constructed w' = Suc (constructed w_empty) \<and> destroyed w' = destroyed w_empty)"
proof -
  have p: "boxes w_present 1 = Some \<lparr>is_initialized = True, value_ptr = Some 1\<rparr>"
    by (simp add: w_present_def)
  have e: "boxes w_empty 1 = Some \<lparr>is_initialized = False, value_ptr = None\<rparr>"
    by (simp add: w_empty_def)
  have v: "objs w_present (data_addr 1) = Some 5" by (simp add: w_present_def data_addr_def)
  have t: "T_copy_assign plain_T 5 7 = (None, 7)" "T_copy plain_T 5 = Inr 5"
    by (simp_all add: plain_T_def)
  have one: "\<exists>w'. assign_copy_value plain_T 1 7 w_present = Some (Returned 1, w')
          \<and> HasValue 1 w' = Some True
          \<and> objs w' (data_addr 1) = Some 7
          \<and> constructed w' = constructed w_present \<and> destroyed w' = destroyed w_present"
    using assign_value_never_empties [OF wf_w_present p, of plain_T 7] v t by fastforce
  have two: "\<exists>w'. assign_copy_value plain_T 1 5 w_empty = Some (Returned 1, w')
          \<and> HasValue 1 w' = Some True
          \<and> objs w' (data_addr 1) = Some 5
          \<and> constructed w' = Suc (constructed w_empty) \<and> destroyed w' = destroyed w_empty"
    using assign_value_never_empties [OF wf_w_empty e, of plain_T 5] t by simp
  show ?thesis using wf_w_present p v one wf_w_empty e two by blast
qed

subsection \<open>Constructions and destructions\<close>

text \<open>
  C5. After any sequence of operations that starts with no box at all (exceptions of \<open>T\<close>
  caught by the caller, who goes on): no more \<open>T\<close> have been destroyed than constructed, and
  the constructions not yet matched by a destruction are as many as the boxes that are live
  and present, so once every box has been destroyed the two counts are equal. In the store
  reached, every operation on boxes within their lifetime is defined, so no destructor runs
  on storage without a live \<open>T\<close>. The destructor of a live box does what \<open>Reset()\<close> does, one
  destructor call of \<open>T\<close> if the box is present and none if it is empty, and then the box is
  gone.
\<close>

theorem constructions_match_destructions:
  assumes "run T xs empty_world = Some w"
  shows "destroyed w \<le> constructed w
       \<and> constructed w - destroyed w = card {a. \<exists>b. boxes w a = Some b \<and> is_initialized b}
       \<and> (dom (boxes w) = {} \<longrightarrow> constructed w = destroyed w)
       \<and> (\<forall>x. op_ok w x \<longrightarrow> exec T x w \<noteq> None)
       \<and> (\<forall>this b. boxes w this = Some b \<longrightarrow>
             (\<exists>w1. Reset this w = Some w1
                \<and> destructor this w = Some (w1\<lparr>boxes := (boxes w1)(this := None)\<rparr>)
                \<and> objs w1 = (objs w)(data_addr this := None)
                \<and> constructed w1 = constructed w
                \<and> destroyed w1 = destroyed w + (if is_initialized b then 1 else 0)))"
proof -
  have ok: "wf_world w" using wf_run [OF wf_empty assms] .
  have bal: "constructed w = destroyed w + card (dom (objs w))"
    using ok by (simp add: wf_world_def)
  have live: "dom (objs w) = {a. \<exists>b. boxes w a = Some b \<and> is_initialized b}"
    using wf_live_objs [OF ok] .
  have c1: "destroyed w \<le> constructed w" using bal by simp
  have c2: "constructed w - destroyed w = card {a. \<exists>b. boxes w a = Some b \<and> is_initialized b}"
    using bal live by simp
  have "{a. \<exists>b. boxes w a = Some b \<and> is_initialized b} = {}" if "dom (boxes w) = {}"
    using that by auto
  then have c3: "dom (boxes w) = {} \<longrightarrow> constructed w = destroyed w"
    using bal live by simp
  have c4: "\<forall>x. op_ok w x \<longrightarrow> exec T x w \<noteq> None"
    using exec_defined [OF ok, of _ T] by auto
  have c5: "\<forall>this b. boxes w this = Some b \<longrightarrow>
       (\<exists>w1. Reset this w = Some w1
          \<and> destructor this w = Some (w1\<lparr>boxes := (boxes w1)(this := None)\<rparr>)
          \<and> objs w1 = (objs w)(data_addr this := None)
          \<and> constructed w1 = constructed w
          \<and> destroyed w1 = destroyed w + (if is_initialized b then 1 else 0))"
    using destructor_defined [OF ok] by blast
  show ?thesis by (intro conjI) (rule c1, rule c2, rule c3, rule c4, rule c5)
qed

theorem constructions_match_destructions_witness:
  "\<exists>w. run plain_T demo_program empty_world = Some w
     \<and> dom (boxes w) = {} \<and> constructed w = 2 \<and> destroyed w = 2"
proof -
  define w where "w = the (run plain_T demo_program empty_world)"
  have r: "run plain_T demo_program empty_world = Some w"
    unfolding w_def demo_program_def
    by (simp add: construct_box_def Optional_copy_value_def Optional_move_def Value_def
          assign_copy_value_def assign_copy_def Reset_def destructor_def returning_def
          deref_def destroy_at_def finish_def set_box_def construct_at_def write_at_def
          empty_world_def plain_T_def data_addr_def)
  have c: "constructed w = 2" "destroyed w = 2"
    unfolding w_def demo_program_def
    by (simp_all add: construct_box_def Optional_copy_value_def Optional_move_def Value_def
          assign_copy_value_def assign_copy_def Reset_def destructor_def returning_def
          deref_def destroy_at_def finish_def set_box_def construct_at_def write_at_def
          empty_world_def plain_T_def data_addr_def)
  have d: "dom (boxes w) = {}"
    unfolding w_def demo_program_def
    by (simp add: construct_box_def Optional_copy_value_def Optional_move_def Value_def
          assign_copy_value_def assign_copy_def Reset_def destructor_def returning_def
          deref_def destroy_at_def finish_def set_box_def construct_at_def write_at_def
          empty_world_def plain_T_def data_addr_def)
  from constructions_match_destructions [OF r] have "constructed w = destroyed w" using d by blast
  then show ?thesis using r c d by blast
qed

subsection \<open>Reset\<close>

lemma Reset_times_fixed:
  "Reset this w = Some w \<Longrightarrow> Reset_times n this w = Some w"
  by (induction n) simp_all

text \<open>
  C6. For every live box in a store that satisfies the invariant, \<open>Reset()\<close> returns and
  leaves \<open>HasValue() == false\<close>; a second \<open>Reset()\<close> changes nothing, so any number of calls
  in a row, at least one, ends in the store the first call gave; and over all of them the
  destructor of \<open>T\<close> has run once if the box held a value and not at all if it was empty,
  while nothing was constructed.
\<close>

theorem Reset_idempotent:
  assumes "wf_world w" and "boxes w this = Some b"
  shows "\<exists>w1. Reset this w = Some w1 \<and> HasValue this w1 = Some False
           \<and> Reset this w1 = Some w1
           \<and> (\<forall>n. Reset_times (Suc n) this w = Some w1)
           \<and> constructed w1 = constructed w
           \<and> destroyed w1 = destroyed w + (if is_initialized b then 1 else 0)"
proof -
  obtain w1 where w1: "Reset this w = Some w1"
    using Reset_defined [OF assms] by simp
  from Reset_clears [OF w1] obtain b1 where b1: "boxes w1 this = Some b1" "\<not> is_initialized b1"
    by blast
  have flag: "HasValue this w1 = Some False" using b1 by (simp add: HasValue_def)
  have again: "Reset this w1 = Some w1" using b1 by (simp add: Reset_def)
  have many: "Reset_times (Suc n) this w = Some w1" for n
    using w1 Reset_times_fixed [OF again] by simp
  have counts: "constructed w1 = constructed w
      \<and> destroyed w1 = destroyed w + (if is_initialized b then 1 else 0)"
    using w1 Reset_defined [OF assms] by (auto simp: sel_set_box)
  show ?thesis using w1 flag again many counts by blast
qed

theorem Reset_idempotent_witness:
  "wf_world w_present \<and> boxes w_present 1 = Some \<lparr>is_initialized = True, value_ptr = Some 1\<rparr>
   \<and> (\<exists>w1. Reset 1 w_present = Some w1 \<and> HasValue 1 w1 = Some False
           \<and> Reset 1 w1 = Some w1
           \<and> (\<forall>n. Reset_times (Suc n) 1 w_present = Some w1)
           \<and> constructed w1 = constructed w_present
           \<and> destroyed w1 = destroyed w_present + 1)"
proof -
  have b: "boxes w_present 1 = Some \<lparr>is_initialized = True, value_ptr = Some 1\<rparr>"
    by (simp add: w_present_def)
  show ?thesis using Reset_idempotent [OF wf_w_present b] wf_w_present b by simp
qed

subsection \<open>Copy construction from a box\<close>

text \<open>
  C7. In a store that satisfies the invariant, \<open>Optional(const Optional& other)\<close> from a live
  box \<open>other\<close>, where no box lives yet: when \<open>other\<close> holds a \<open>T\<close> in state \<open>src\<close> and the
  copy constructor of \<open>T\<close> makes \<open>v\<close> from it, the new box is present, its pointer is to its
  own buffer, which is not the buffer of \<open>other\<close>, the buffer holds \<open>v\<close>, one \<open>T\<close> was
  constructed and \<open>other\<close> is as it was; when \<open>other\<close> is empty the new box is empty and no
  \<open>T\<close> was constructed.
\<close>

theorem copy_construct_replicates_presence:
  assumes "wf_world w" and "boxes w this = None" and "boxes w other = Some ob"
  shows "(is_initialized ob \<longrightarrow>
            (\<exists>src. objs w (data_addr other) = Some src \<and>
               (\<forall>v. T_copy T src = Inr v \<longrightarrow>
                  (\<exists>w'. exec T (New_copy this other) w = Some (Returned this, w')
                     \<and> HasValue this w' = Some True
                     \<and> boxes w' this =
                         Some \<lparr>is_initialized = True, value_ptr = Some (data_addr this)\<rparr>
                     \<and> objs w' (data_addr this) = Some v
                     \<and> data_addr this \<noteq> data_addr other
                     \<and> objs w' (data_addr other) = Some src
                     \<and> boxes w' other = Some ob
                     \<and> constructed w' = Suc (constructed w)
                     \<and> destroyed w' = destroyed w))))
       \<and> (\<not> is_initialized ob \<longrightarrow>
            (\<exists>w'. exec T (New_copy this other) w = Some (Returned this, w')
               \<and> HasValue this w' = Some False
               \<and> HasValue other w' = Some False
               \<and> objs w' = objs w
               \<and> constructed w' = constructed w
               \<and> destroyed w' = destroyed w))"
proof (intro conjI impI)
  assume live: "is_initialized ob"
  from wf_objs_box [OF assms(1,3) live] obtain src where src: "objs w other = Some src"
    by blast
  have ne: "this \<noteq> other" using assms(2,3) by auto
  have "\<exists>w'. exec T (New_copy this other) w = Some (Returned this, w')
          \<and> HasValue this w' = Some True
          \<and> boxes w' this = Some \<lparr>is_initialized = True, value_ptr = Some (data_addr this)\<rparr>
          \<and> objs w' (data_addr this) = Some v
          \<and> data_addr this \<noteq> data_addr other
          \<and> objs w' (data_addr other) = Some src
          \<and> boxes w' other = Some ob
          \<and> constructed w' = Suc (constructed w)
          \<and> destroyed w' = destroyed w" if "T_copy T src = Inr v" for v
    using that assms(2,3) live src ne
    by (simp add: construct_box_def Optional_copy_def Value_live(2) [OF assms(1,3) live]
          HasValue_def sel_set_box sel_construct_at data_addr_def)
  then show "\<exists>src. objs w (data_addr other) = Some src \<and>
       (\<forall>v. T_copy T src = Inr v \<longrightarrow>
          (\<exists>w'. exec T (New_copy this other) w = Some (Returned this, w')
             \<and> HasValue this w' = Some True
             \<and> boxes w' this = Some \<lparr>is_initialized = True, value_ptr = Some (data_addr this)\<rparr>
             \<and> objs w' (data_addr this) = Some v
             \<and> data_addr this \<noteq> data_addr other
             \<and> objs w' (data_addr other) = Some src
             \<and> boxes w' other = Some ob
             \<and> constructed w' = Suc (constructed w)
             \<and> destroyed w' = destroyed w))"
    using src by (simp add: data_addr_def)
next
  assume "\<not> is_initialized ob"
  then show "\<exists>w'. exec T (New_copy this other) w = Some (Returned this, w')
       \<and> HasValue this w' = Some False
       \<and> HasValue other w' = Some False
       \<and> objs w' = objs w
       \<and> constructed w' = constructed w
       \<and> destroyed w' = destroyed w"
    using assms(2,3)
    by (auto simp: construct_box_def Optional_copy_def HasValue_def sel_set_box)
qed

theorem copy_construct_replicates_presence_witness:
  "wf_world w_present \<and> boxes w_present 2 = None
   \<and> boxes w_present 1 = Some \<lparr>is_initialized = True, value_ptr = Some 1\<rparr>
   \<and> objs w_present (data_addr 1) = Some 5 \<and> T_copy plain_T 5 = Inr 5
   \<and> (\<exists>w'. exec plain_T (New_copy 2 1) w_present = Some (Returned 2, w')
          \<and> HasValue 2 w' = Some True
          \<and> objs w' (data_addr 2) = Some 5
          \<and> objs w' (data_addr 1) = Some 5
          \<and> constructed w' = Suc (constructed w_present))"
proof -
  have d: "boxes w_present 2 = None" by (simp add: w_present_def)
  have p: "boxes w_present 1 = Some \<lparr>is_initialized = True, value_ptr = Some 1\<rparr>"
    by (simp add: w_present_def)
  have v: "objs w_present (data_addr 1) = Some 5" by (simp add: w_present_def data_addr_def)
  have c: "T_copy plain_T 5 = Inr 5" by (simp add: plain_T_def)
  from copy_construct_replicates_presence [OF wf_w_present d p, of plain_T]
  have "\<exists>w'. exec plain_T (New_copy 2 1) w_present = Some (Returned 2, w')
          \<and> HasValue 2 w' = Some True
          \<and> objs w' (data_addr 2) = Some 5
          \<and> objs w' (data_addr 1) = Some 5
          \<and> constructed w' = Suc (constructed w_present)"
    using v c by fastforce
  then show ?thesis using wf_w_present d p v c by blast
qed

subsection \<open>Boxes do not share storage\<close>

text \<open>
  C8. In a store that satisfies the invariant, let box \<open>b2\<close> be copy-constructed from the
  present box \<open>b1\<close>. Then \<open>Value()\<close> of the two boxes returns references to different
  objects, and the object in \<open>b2\<close> keeps its state \<open>v2\<close> under every store through the
  reference to the object in \<open>b1\<close> and under every operation called on \<open>b1\<close> that does not
  move from \<open>b2\<close>: an assignment of a value or of a box, \<open>Reset()\<close>, the destructor.
\<close>

theorem copy_is_independent:
  assumes "wf_world w" and "boxes w b2 = None" and "boxes w b1 = Some ob"
    and "is_initialized ob" and "exec T (New_copy b2 b1) w = Some (Returned b2, w1)"
  shows "\<exists>v2. Value b1 w1 = Some (Returned (data_addr b1) :: (addr, 'e) outcome)
           \<and> Value b2 w1 = Some (Returned (data_addr b2) :: (addr, 'e) outcome)
           \<and> data_addr b1 \<noteq> data_addr b2
           \<and> objs w1 (data_addr b2) = Some v2
           \<and> (\<forall>x. objs (write_at (data_addr b1) x w1) (data_addr b2) = Some v2
                  \<and> Value b2 (write_at (data_addr b1) x w1) =
                      Some (Returned (data_addr b2) :: (addr, 'e) outcome))
           \<and> (\<forall>x out w2. target x = b1 \<longrightarrow> moved_from x \<noteq> Some b2 \<longrightarrow>
                  exec T x w1 = Some (out, w2) \<longrightarrow>
                  objs w2 (data_addr b2) = Some v2
                \<and> Value b2 w2 = Some (Returned (data_addr b2) :: (addr, 'e) outcome))"
proof -
  have ne: "b1 \<noteq> b2" using assms(2,3) by auto
  from wf_objs_box [OF assms(1,3,4)] obtain src where src: "objs w b1 = Some src" by blast
  from assms(5) New_copy_present [OF assms(1-4) src, of T] obtain v2 where
    w1: "w1 = set_box b2 \<lparr>is_initialized = True, value_ptr = Some b2\<rparr> (construct_at b2 v2 w)"
    by (auto split: sum.splits)
  have ok1: "wf_world w1" using wf_exec [OF assms(1,5)] .
  have box1: "boxes w1 b1 = Some ob"
    and box2: "boxes w1 b2 = Some \<lparr>is_initialized = True, value_ptr = Some b2\<rparr>"
    and obj2: "objs w1 b2 = Some v2"
    using ne assms(3) by (simp_all add: w1 sel_set_box sel_construct_at)
  have val1: "Value b1 w1 = Some (Returned b1 :: (addr, 'e) outcome)"
    using Value_live(1) [OF ok1 box1 assms(4)] .
  have val2: "Value b2 w1 = Some (Returned b2 :: (addr, 'e) outcome)"
    using Value_live(1) [OF ok1 box2] by simp
  have store: "objs (write_at b1 x w1) b2 = Some v2
      \<and> Value b2 (write_at b1 x w1) = Some (Returned b2 :: (addr, 'e) outcome)" for x
    using ne obj2 val2 by (simp add: sel_write_at Value_def)
  have ops: "objs w2 b2 = Some v2 \<and> Value b2 w2 = Some (Returned b2 :: (addr, 'e) outcome)"
    if "target x = b1" "moved_from x \<noteq> Some b2" "exec T x w1 = Some (out, w2)" for x out w2
  proof -
    have same: "objs w2 b2 = objs w1 b2 \<and> boxes w2 b2 = boxes w1 b2"
      using exec_frame [OF ok1 that(3), of b2] that(1,2) ne by simp
    then have "Value b2 w2 = (Value b2 w1 :: (addr, 'e) outcome option)"
      by (simp add: Value_def)
    then show ?thesis using same obj2 val2 by simp
  qed
  show ?thesis
    unfolding data_addr_def using val1 val2 ne obj2 store ops by blast
qed

theorem copy_is_independent_witness:
  "wf_world w_present \<and> boxes w_present 2 = None
   \<and> boxes w_present 1 = Some \<lparr>is_initialized = True, value_ptr = Some 1\<rparr>
   \<and> exec plain_T (New_copy 2 1) w_present = Some (Returned 2, w_copied)
   \<and> objs w_copied (data_addr 2) = Some 5
   \<and> objs (write_at (data_addr 1) 9 w_copied) (data_addr 2) = Some 5
   \<and> exec plain_T (Assign_copy_value 1 9) w_copied = Some (Returned 1, write_at 1 9 w_copied)
   \<and> objs (write_at 1 9 w_copied) (data_addr 2) = Some 5"
proof -
  have d: "boxes w_present 2 = None" by (simp add: w_present_def)
  have p: "boxes w_present 1 = Some \<lparr>is_initialized = True, value_ptr = Some 1\<rparr>"
    by (simp add: w_present_def)
  have i: "is_initialized \<lparr>is_initialized = True, value_ptr = Some 1\<rparr>" by simp
  have e: "exec plain_T (New_copy 2 1) w_present = Some (Returned 2, w_copied)"
    by (simp add: construct_box_def Optional_copy_def Value_const_def w_present_def
          w_copied_def plain_T_def data_addr_def)
  have o: "objs w_copied (data_addr 2) = Some 5"
    by (simp add: w_copied_def sel_set_box sel_construct_at data_addr_def)
  have a: "exec plain_T (Assign_copy_value 1 9) w_copied = Some (Returned 1, write_at 1 9 w_copied)"
    by (simp add: assign_copy_value_def deref_def finish_def w_copied_def w_present_def
          set_box_def construct_at_def plain_T_def)
  from copy_is_independent [OF wf_w_present d p i e] o
  have "(\<forall>x. objs (write_at (data_addr 1) x w_copied) (data_addr 2) = Some 5)
      \<and> (\<forall>x out w2. target x = 1 \<longrightarrow> moved_from x \<noteq> Some 2 \<longrightarrow>
             exec plain_T x w_copied = Some (out, w2) \<longrightarrow> objs w2 (data_addr 2) = Some 5)"
    by auto
  note t = this
  have s1: "objs (write_at (data_addr 1) 9 w_copied) (data_addr 2) = Some 5"
    using t by blast
  have "target (Assign_copy_value 1 9 :: nat op) = 1"
    and "moved_from (Assign_copy_value 1 9 :: nat op) \<noteq> Some 2"
    by simp_all
  then have s2: "objs (write_at 1 9 w_copied) (data_addr 2) = Some 5"
    using t a by blast
  show ?thesis using wf_w_present d p e o a s1 s2 by blast
qed

subsection \<open>A copy constructor of \<open>T\<close> that throws\<close>

text \<open>
  C9. In a store that satisfies the invariant, let the copy constructor of \<open>T\<close> throw \<open>e\<close> on
  the state \<open>src\<close>.
  \<^item> \<open>Optional(const T&)\<close> from a \<open>T\<close> in that state, and \<open>Optional(const Optional&)\<close> from a
    present box whose object is in that state, leave by that same exception. Afterwards
    there is no box at \<open>this\<close>, so none that has \<open>HasValue() == true\<close>, the buffer there holds
    no \<open>T\<close>, every buffer is as it was, nothing was constructed or destroyed, and the source
    box is still present.
  \<^item> The construction in place that \<open>operator=(const T&)\<close> and \<open>operator=(const Optional&)\<close>
    do on an empty box leaves by that same exception too, and afterwards the box has
    \<open>HasValue() == false\<close>, its buffer holds no \<open>T\<close>, every buffer is as it was, and nothing
    was constructed or destroyed.
\<close>

theorem copy_construct_throw_leaves_nothing:
  assumes "wf_world w" and "T_copy T src = Inl e"
  shows "(boxes w this = None \<longrightarrow>
            (\<exists>w'. exec T (New_copy_value this src) w = Some (Thrown (T_exception e), w')
               \<and> boxes w' this = None \<and> HasValue this w' \<noteq> Some True
               \<and> objs w' (data_addr this) = None \<and> objs w' = objs w
               \<and> constructed w' = constructed w \<and> destroyed w' = destroyed w))
       \<and> (boxes w this = None \<and> boxes w other = Some ob \<and> is_initialized ob
            \<and> objs w (data_addr other) = Some src \<longrightarrow>
            (\<exists>w'. exec T (New_copy this other) w = Some (Thrown (T_exception e), w')
               \<and> boxes w' this = None \<and> HasValue this w' \<noteq> Some True
               \<and> HasValue other w' = Some True
               \<and> objs w' (data_addr this) = None \<and> objs w' = objs w
               \<and> constructed w' = constructed w \<and> destroyed w' = destroyed w))
       \<and> (boxes w this = Some b \<and> \<not> is_initialized b \<longrightarrow>
            (\<exists>w'. assign_copy_value T this src w = Some (Thrown (T_exception e), w')
               \<and> HasValue this w' = Some False
               \<and> objs w' (data_addr this) = None \<and> objs w' = objs w
               \<and> constructed w' = constructed w \<and> destroyed w' = destroyed w))
       \<and> (boxes w this = Some b \<and> \<not> is_initialized b \<and> boxes w other = Some ob
            \<and> is_initialized ob \<and> objs w (data_addr other) = Some src \<longrightarrow>
            (\<exists>w'. assign_copy T this other w = Some (Thrown (T_exception e), w')
               \<and> HasValue this w' = Some False \<and> HasValue other w' = Some True
               \<and> objs w' (data_addr this) = None \<and> objs w' = objs w
               \<and> constructed w' = constructed w \<and> destroyed w' = destroyed w))"
proof (intro conjI impI)
  assume dead: "boxes w this = None"
  then show "\<exists>w'. exec T (New_copy_value this src) w = Some (Thrown (T_exception e), w')
       \<and> boxes w' this = None \<and> HasValue this w' \<noteq> Some True
       \<and> objs w' (data_addr this) = None \<and> objs w' = objs w
       \<and> constructed w' = constructed w \<and> destroyed w' = destroyed w"
    using assms(2) wf_objs_dead [OF assms(1) dead]
    by (simp add: Optional_copy_value_def construct_box_def HasValue_def data_addr_def)
next
  assume a: "boxes w this = None \<and> boxes w other = Some ob \<and> is_initialized ob
      \<and> objs w (data_addr other) = Some src"
  then have dead: "boxes w this = None" and ob: "boxes w other = Some ob"
    and live: "is_initialized ob" and src: "objs w other = Some src"
    by (simp_all add: data_addr_def)
  show "\<exists>w'. exec T (New_copy this other) w = Some (Thrown (T_exception e), w')
       \<and> boxes w' this = None \<and> HasValue this w' \<noteq> Some True
       \<and> HasValue other w' = Some True
       \<and> objs w' (data_addr this) = None \<and> objs w' = objs w
       \<and> constructed w' = constructed w \<and> destroyed w' = destroyed w"
    using assms(2) dead ob live wf_objs_dead [OF assms(1) dead]
      New_copy_present [OF assms(1) dead ob live src, of T]
    by (simp add: HasValue_def data_addr_def)
next
  assume a: "boxes w this = Some b \<and> \<not> is_initialized b"
  then have b: "boxes w this = Some b" and empty: "\<not> is_initialized b" by simp_all
  show "\<exists>w'. assign_copy_value T this src w = Some (Thrown (T_exception e), w')
       \<and> HasValue this w' = Some False
       \<and> objs w' (data_addr this) = None \<and> objs w' = objs w
       \<and> constructed w' = constructed w \<and> destroyed w' = destroyed w"
    using assms(2) b empty wf_objs_none [OF assms(1) b empty]
    by (simp add: assign_copy_value_def HasValue_def data_addr_def)
next
  assume a: "boxes w this = Some b \<and> \<not> is_initialized b \<and> boxes w other = Some ob
      \<and> is_initialized ob \<and> objs w (data_addr other) = Some src"
  then have b: "boxes w this = Some b" and empty: "\<not> is_initialized b"
    and ob: "boxes w other = Some ob" and live: "is_initialized ob"
    and src: "objs w other = Some src"
    by (simp_all add: data_addr_def)
  from deref_live [OF assms(1) ob live] src
  have d: "deref (value_ptr ob) w = Some (other, src)" by simp
  show "\<exists>w'. assign_copy T this other w = Some (Thrown (T_exception e), w')
       \<and> HasValue this w' = Some False \<and> HasValue other w' = Some True
       \<and> objs w' (data_addr this) = None \<and> objs w' = objs w
       \<and> constructed w' = constructed w \<and> destroyed w' = destroyed w"
    using assms(2) b empty ob live d wf_objs_none [OF assms(1) b empty]
    by (simp add: assign_copy_def HasValue_def data_addr_def)
qed

theorem copy_construct_throw_leaves_nothing_witness:
  "wf_world w_zero \<and> T_copy throwing_T 0 = Inl 1
   \<and> boxes w_zero 3 = None
   \<and> boxes w_zero 1 = Some \<lparr>is_initialized = True, value_ptr = Some 1\<rparr>
   \<and> boxes w_zero 2 = Some \<lparr>is_initialized = False, value_ptr = None\<rparr>
   \<and> objs w_zero (data_addr 1) = Some 0
   \<and> (\<exists>w'. exec throwing_T (New_copy_value 3 0) w_zero = Some (Thrown (T_exception 1), w')
          \<and> boxes w' 3 = None \<and> objs w' = objs w_zero \<and> constructed w' = constructed w_zero)
   \<and> (\<exists>w'. exec throwing_T (New_copy 3 1) w_zero = Some (Thrown (T_exception 1), w')
          \<and> boxes w' 3 = None \<and> objs w' = objs w_zero \<and> constructed w' = constructed w_zero)
   \<and> (\<exists>w'. assign_copy_value throwing_T 2 0 w_zero = Some (Thrown (T_exception 1), w')
          \<and> HasValue 2 w' = Some False \<and> objs w' = objs w_zero)
   \<and> (\<exists>w'. assign_copy throwing_T 2 1 w_zero = Some (Thrown (T_exception 1), w')
          \<and> HasValue 2 w' = Some False \<and> objs w' = objs w_zero)"
proof -
  have t: "T_copy throwing_T 0 = Inl 1" by (simp add: throwing_T_def)
  have d: "boxes w_zero 3 = None"
    and p: "boxes w_zero 1 = Some \<lparr>is_initialized = True, value_ptr = Some 1\<rparr>"
    and e: "boxes w_zero 2 = Some \<lparr>is_initialized = False, value_ptr = None\<rparr>"
    by (simp_all add: w_zero_def)
  have o: "objs w_zero (data_addr 1) = Some 0" by (simp add: w_zero_def data_addr_def)
  note z = copy_construct_throw_leaves_nothing [OF wf_w_zero t]
  have c1: "\<exists>w'. exec throwing_T (New_copy_value 3 0) w_zero = Some (Thrown (T_exception 1), w')
      \<and> boxes w' 3 = None \<and> objs w' = objs w_zero \<and> constructed w' = constructed w_zero"
    using z [where this = 3] d by blast
  have c2: "\<exists>w'. exec throwing_T (New_copy 3 1) w_zero = Some (Thrown (T_exception 1), w')
      \<and> boxes w' 3 = None \<and> objs w' = objs w_zero \<and> constructed w' = constructed w_zero"
    using z [where this = 3 and other = 1
        and ob = "\<lparr>is_initialized = True, value_ptr = Some 1\<rparr>"] d p o
    by auto
  have c3: "\<exists>w'. assign_copy_value throwing_T 2 0 w_zero = Some (Thrown (T_exception 1), w')
      \<and> HasValue 2 w' = Some False \<and> objs w' = objs w_zero"
    using z [where this = 2 and b = "\<lparr>is_initialized = False, value_ptr = None\<rparr>"] e
    by auto
  have c4: "\<exists>w'. assign_copy throwing_T 2 1 w_zero = Some (Thrown (T_exception 1), w')
      \<and> HasValue 2 w' = Some False \<and> objs w' = objs w_zero"
    using z [where this = 2 and other = 1
        and b = "\<lparr>is_initialized = False, value_ptr = None\<rparr>"
        and ob = "\<lparr>is_initialized = True, value_ptr = Some 1\<rparr>"] e p o
    by auto
  show ?thesis using wf_w_zero t d p e o c1 c2 c3 c4 by blast
qed

subsection \<open>Moving from a box\<close>

lemma assign_move_present_source:
  assumes "wf_world w" and "boxes w this = Some b" and "boxes w rhs = Some r"
    and "is_initialized r" and "assign_move T this rhs w = Some (out, w')"
  shows "boxes w' rhs = Some r \<and> objs w' rhs \<noteq> None
       \<and> (out = Returned this \<longrightarrow> (\<exists>b'. boxes w' this = Some b' \<and> is_initialized b'))"
proof (cases "is_initialized b")
  case True
  from deref_live [OF assms(1,2) True] deref_live [OF assms(1,3,4)]
  show ?thesis
    using assms(2,3,4,5) True
    by (auto simp: assign_move_def finish_cases sel_write_at split: if_splits)
next
  case False
  then have ne: "this \<noteq> rhs" using assms(2-4) by auto
  from deref_live [OF assms(1,3,4)]
  show ?thesis
    using assms(2,3,4,5) False ne
    by (auto simp: assign_move_def Let_def sel_write_at sel_set_box sel_construct_at
          data_addr_def split: sum.splits)
qed

lemma destroy_two:
  assumes "wf_world w" and "boxes w a = Some ba" and "is_initialized ba"
    and "boxes w c = Some bc" and "is_initialized bc" and "a \<noteq> c"
  shows "\<exists>w2 w3. destructor a w = Some w2 \<and> destructor c w2 = Some w3
           \<and> destroyed w3 = destroyed w + 2 \<and> constructed w3 = constructed w
           \<and> objs w3 (data_addr a) = None \<and> objs w3 (data_addr c) = None"
proof -
  from destructor_defined [OF assms(1,2)] assms(3) obtain w1 where
    w1: "destructor a w = Some (w1\<lparr>boxes := (boxes w1)(a := None)\<rparr>)"
      "objs w1 = (objs w)(a := None)" "constructed w1 = constructed w"
      "destroyed w1 = Suc (destroyed w)"
    by (auto simp: data_addr_def)
  let ?w2 = "w1\<lparr>boxes := (boxes w1)(a := None)\<rparr>"
  have ok2: "wf_world ?w2" using wf_destructor [OF assms(1) w1(1)] .
  have c2: "boxes ?w2 c = Some bc"
    using frame_destructor [OF assms(1) _ w1(1), of c] assms(4,6) by simp
  from destructor_defined [OF ok2 c2] assms(5) obtain w3 where
    w3: "destructor c ?w2 = Some (w3\<lparr>boxes := (boxes w3)(c := None)\<rparr>)"
      "objs w3 = (objs ?w2)(c := None)" "constructed w3 = constructed ?w2"
      "destroyed w3 = Suc (destroyed ?w2)"
    by (auto simp: data_addr_def)
  show ?thesis
    using w1 w3 by (simp add: data_addr_def)
qed

text \<open>
  C10. In a store that satisfies the invariant, let the live box \<open>src\<close> hold a \<open>T\<close> in state
  \<open>v\<close>. However \<open>Optional(Optional&& src)\<close> into storage without a box ends, and however
  \<open>operator=(Optional&& src)\<close> on a live box ends, \<open>src\<close> still has \<open>HasValue() == true\<close> and
  its buffer still holds a live \<open>T\<close> (after the move constructor, in the state that the move
  constructor of \<open>T\<close> left it in). When the call returns the target is present too, and, the
  two boxes being different, destroying the target and then \<open>src\<close> runs the destructor of \<open>T\<close>
  twice, once in each buffer, and constructs nothing.
\<close>

theorem move_leaves_source_present:
  assumes "wf_world w" and "boxes w src = Some sb" and "is_initialized sb"
  shows "\<exists>v. objs w (data_addr src) = Some v
       \<and> (boxes w this = None \<longrightarrow>
            (\<forall>out w'. exec T (New_move this src) w = Some (out, w') \<longrightarrow>
               HasValue src w' = Some True
             \<and> objs w' (data_addr src) = Some (snd (T_move T v))
             \<and> (out = Returned this \<longrightarrow>
                  HasValue this w' = Some True
                \<and> constructed w' = Suc (constructed w) \<and> destroyed w' = destroyed w
                \<and> (\<exists>w2 w3. destructor this w' = Some w2 \<and> destructor src w2 = Some w3
                      \<and> destroyed w3 = destroyed w' + 2 \<and> constructed w3 = constructed w'
                      \<and> objs w3 (data_addr this) = None \<and> objs w3 (data_addr src) = None))))
       \<and> (boxes w this \<noteq> None \<longrightarrow>
            (\<forall>out w'. assign_move T this src w = Some (out, w') \<longrightarrow>
               HasValue src w' = Some True
             \<and> objs w' (data_addr src) \<noteq> None
             \<and> (out = Returned this \<longrightarrow>
                  HasValue this w' = Some True
                \<and> (this \<noteq> src \<longrightarrow>
                     (\<exists>w2 w3. destructor this w' = Some w2 \<and> destructor src w2 = Some w3
                        \<and> destroyed w3 = destroyed w' + 2 \<and> constructed w3 = constructed w'
                        \<and> objs w3 (data_addr this) = None
                        \<and> objs w3 (data_addr src) = None)))))"
proof -
  from wf_objs_box [OF assms] obtain v where v: "objs w src = Some v" by blast
  have ctor: "HasValue src w' = Some True
      \<and> objs w' (data_addr src) = Some (snd (T_move T v))
      \<and> (out = Returned this \<longrightarrow>
           HasValue this w' = Some True
         \<and> constructed w' = Suc (constructed w) \<and> destroyed w' = destroyed w
         \<and> (\<exists>w2 w3. destructor this w' = Some w2 \<and> destructor src w2 = Some w3
               \<and> destroyed w3 = destroyed w' + 2 \<and> constructed w3 = constructed w'
               \<and> objs w3 (data_addr this) = None \<and> objs w3 (data_addr src) = None))"
    if dead: "boxes w this = None" and run: "exec T (New_move this src) w = Some (out, w')"
    for out w'
  proof -
    have ne: "this \<noteq> src" using dead assms(2) by auto
    have ok': "wf_world w'" using wf_exec [OF assms(1) run] .
    note eq = New_move_present [OF assms(1) dead assms(2,3) v, of T]
    have src': "boxes w' src = Some sb" "objs w' src = Some (snd (T_move T v))"
      using run eq ne assms(2)
      by (auto simp: sel_set_box sel_construct_at sel_write_at split: sum.splits)
    have new: "boxes w' this = Some \<lparr>is_initialized = True, value_ptr = Some this\<rparr>
        \<and> constructed w' = Suc (constructed w) \<and> destroyed w' = destroyed w"
      if "out = Returned this"
      using that run eq
      by (auto simp: sel_set_box sel_construct_at sel_write_at split: sum.splits)
    have two: "\<exists>w2 w3. destructor this w' = Some w2 \<and> destructor src w2 = Some w3
        \<and> destroyed w3 = destroyed w' + 2 \<and> constructed w3 = constructed w'
        \<and> objs w3 (data_addr this) = None \<and> objs w3 (data_addr src) = None"
      if "out = Returned this"
      using destroy_two [OF ok' _ _ src'(1) assms(3) ne] new [OF that] by simp
    show ?thesis
      using src' assms(3) new two by (simp add: HasValue_def data_addr_def)
  qed
  have asg: "HasValue src w' = Some True
      \<and> objs w' (data_addr src) \<noteq> None
      \<and> (out = Returned this \<longrightarrow>
           HasValue this w' = Some True
         \<and> (this \<noteq> src \<longrightarrow>
              (\<exists>w2 w3. destructor this w' = Some w2 \<and> destructor src w2 = Some w3
                 \<and> destroyed w3 = destroyed w' + 2 \<and> constructed w3 = constructed w'
                 \<and> objs w3 (data_addr this) = None \<and> objs w3 (data_addr src) = None)))"
    if live: "boxes w this \<noteq> None" and run: "assign_move T this src w = Some (out, w')"
    for out w'
  proof -
    from live obtain b where b: "boxes w this = Some b" by auto
    have ok': "wf_world w'" using wf_assign_move [OF assms(1) run] .
    note after = assign_move_present_source [OF assms(1) b assms(2,3) run]
    have two: "\<exists>w2 w3. destructor this w' = Some w2 \<and> destructor src w2 = Some w3
        \<and> destroyed w3 = destroyed w' + 2 \<and> constructed w3 = constructed w'
        \<and> objs w3 (data_addr this) = None \<and> objs w3 (data_addr src) = None"
      if "out = Returned this" "this \<noteq> src"
    proof -
      from after that(1) obtain b' where "boxes w' this = Some b'" "is_initialized b'" by blast
      from destroy_two [OF ok' this _ assms(3) that(2)] after show ?thesis by blast
    qed
    show ?thesis
      using after assms(3) two by (auto simp: HasValue_def data_addr_def)
  qed
  show ?thesis
    using v ctor asg unfolding data_addr_def [of src] by blast
qed

theorem move_leaves_source_present_witness:
  "wf_world w_present
   \<and> boxes w_present 1 = Some \<lparr>is_initialized = True, value_ptr = Some 1\<rparr>
   \<and> boxes w_present 2 = None
   \<and> (\<exists>w'. exec plain_T (New_move 2 1) w_present = Some (Returned 2, w')
          \<and> HasValue 1 w' = Some True \<and> objs w' (data_addr 1) = Some 0
          \<and> HasValue 2 w' = Some True
          \<and> (\<exists>w2 w3. destructor 2 w' = Some w2 \<and> destructor 1 w2 = Some w3
                \<and> destroyed w3 = 2 \<and> constructed w3 = 2))"
proof -
  have d: "boxes w_present 2 = None" by (simp add: w_present_def)
  have p: "boxes w_present 1 = Some \<lparr>is_initialized = True, value_ptr = Some 1\<rparr>"
    by (simp add: w_present_def)
  have i: "is_initialized \<lparr>is_initialized = True, value_ptr = Some 1\<rparr>" by simp
  have o: "objs w_present (data_addr 1) = Some 5" by (simp add: w_present_def data_addr_def)
  have t: "snd (T_move plain_T 5) = 0" by (simp add: plain_T_def)
  have c: "constructed w_present = 1" "destroyed w_present = 0" by (simp_all add: w_present_def)
  obtain w' where e: "exec plain_T (New_move 2 1) w_present = Some (Returned 2, w')"
    by (simp add: construct_box_def Optional_move_def Value_def w_present_def plain_T_def)
  from move_leaves_source_present [OF wf_w_present p i, of 2 plain_T] o d e
  have "HasValue 1 w' = Some True \<and> objs w' (data_addr 1) = Some (snd (T_move plain_T 5))
      \<and> HasValue 2 w' = Some True
      \<and> constructed w' = Suc (constructed w_present) \<and> destroyed w' = destroyed w_present
      \<and> (\<exists>w2 w3. destructor 2 w' = Some w2 \<and> destructor 1 w2 = Some w3
            \<and> destroyed w3 = destroyed w' + 2 \<and> constructed w3 = constructed w')"
    by fastforce
  then have "HasValue 1 w' = Some True \<and> objs w' (data_addr 1) = Some 0
      \<and> HasValue 2 w' = Some True
      \<and> (\<exists>w2 w3. destructor 2 w' = Some w2 \<and> destructor 1 w2 = Some w3
            \<and> destroyed w3 = 2 \<and> constructed w3 = 2)"
    using t c by auto
  then show ?thesis using wf_w_present p d e by blast
qed

end
